theory Spec2Isabelle
  imports
    Complex_Main
    "HOL-Library.Char_ord"
    "HOL-Library.List_Lexorder"
    "HOL-Library.Sublist"
    "HOL-Library.Multiset"
    "HOL-Library.Monad_Syntax"
begin

unbundle bit_operations_syntax

section \<open>Seed selection from a crawl report: \<^verbatim>\<open>contrib/seeds/makeseeds.py\<close>\<close>

text \<open>
  The script reads the report of a DNS seeder, one line per node, parses each line into a
  dictionary, filters the dictionaries by quality, removes hosts that were seen on several
  ports, limits the IPv4 nodes per autonomous system (ASN) and in total, and prints the
  remaining addresses in a fixed order.

  Conventions of the embedding.
  \<^item> A Python \<open>str\<close> is a \<open>string\<close>; a character is a code point below 256.
  \<^item> A Python \<open>int\<close> is an \<open>int\<close>.
  \<^item> A function that may raise returns \<open>error + 'a\<close>, \<open>Inl\<close> carrying the exception;
    \<open>parseline\<close>'s \<open>return None\<close> is \<open>Inr None\<close>.
  \<^item> \<open>float(s)\<close> rounds to binary64, which is outside this embedding: the conversion is the
    parameter \<open>to_float\<close> of \<open>parseline\<close> and \<open>main\<close> (\<open>None\<close> where \<open>float\<close> raises
    ValueError). The values it returns are the finite floats, the two infinities and NaN.
  \<^item> The DNS query of \<open>filterbyasn\<close> is the parameter \<open>resolve\<close>, from the queried name to
    the ASN, \<open>None\<close> where anything in the lookup expression raises.
  \<^item> A \<open>dict\<close> keeps its keys in insertion order (Python 3.7 and later): the histogram of
    \<open>filtermultiport\<close> is an association list.
\<close>

subsection \<open>Values\<close>

datatype error = ValueError | IndexError

datatype pyfloat = Fin real | PInf | NInf | NaN

datatype net = ipv4 | ipv6 | onion

text \<open>The value under \<open>'sortkey'\<close>: an \<open>int\<close> for IPv4, a \<open>str\<close> otherwise.\<close>

datatype sortkey = KInt int | KStr string

text \<open>The dictionary that \<open>parseline\<close> returns (lines 87 to 99); \<open>'ipnum'\<close> may be \<open>None\<close>.\<close>

record node =
  net :: net
  ip :: string
  port :: int
  ipnum :: "int option"
  uptime :: pyfloat
  lastsuccess :: int
  version :: int
  agent :: string
  service :: int
  blocks :: int
  sortkey :: sortkey

subsection \<open>Configuration (lines 9 to 19)\<close>

definition NSEEDS :: int where
  "NSEEDS = 512"

definition MAX_SEEDS_PER_ASN :: int where
  "MAX_SEEDS_PER_ASN = 2"

definition MIN_BLOCKS :: int where
  "MIN_BLOCKS = 615801"

definition SUSPICIOUS_HOSTS :: "string set" where
  "SUSPICIOUS_HOSTS = {''''}"

subsection \<open>Strings\<close>

text \<open>
  \<open>str.split()\<close> without argument cuts at runs of whitespace and returns no empty token.
  Below 256 the whitespace characters are 9 to 13, 28 to 32, 133 and 160.
\<close>

definition is_space :: "char \<Rightarrow> bool" where
  "is_space c =
     (let n = (of_char c :: nat)
      in (9 \<le> n \<and> n \<le> 13) \<or> (28 \<le> n \<and> n \<le> 32) \<or> n = 133 \<or> n = 160)"

fun split_aux :: "string \<Rightarrow> string \<Rightarrow> string list" where
  "split_aux cur [] = (if cur = [] then [] else [cur])"
| "split_aux cur (c # cs) =
     (if is_space c then (if cur = [] then split_aux [] cs else cur # split_aux [] cs)
      else split_aux (cur @ [c]) cs)"

definition str_split :: "string \<Rightarrow> string list" where
  "str_split line = split_aux [] line"

text \<open>\<open>s.split(c)\<close> with a separator keeps empty pieces; \<open>c.join(xs)\<close>.\<close>

fun split_on :: "char \<Rightarrow> string \<Rightarrow> string list" where
  "split_on c [] = [[]]"
| "split_on c (x # xs) =
     (if x = c then [] # split_on c xs
      else (case split_on c xs of [] \<Rightarrow> [[x]] | w # ws \<Rightarrow> (x # w) # ws))"

fun join :: "string \<Rightarrow> string list \<Rightarrow> string" where
  "join sep [] = []"
| "join sep [x] = x"
| "join sep (x # y # ys) = x @ sep @ join sep (y # ys)"

text \<open>Indexing a list raises IndexError out of range.\<close>

definition get :: "'a list \<Rightarrow> nat \<Rightarrow> error + 'a" where
  "get xs i = (if i < length xs then Inr (xs ! i) else Inl IndexError)"

subsection \<open>\<open>int(s)\<close> and \<open>int(s, 16)\<close>\<close>

text \<open>
  An optional sign, then digits; single underscores may stand between digits. With base 16
  a prefix \<open>0x\<close> or \<open>0X\<close> may come first, and one underscore may follow it. \<open>None\<close> is
  ValueError. Python also strips surrounding whitespace; every argument here is a token
  of \<open>str.split()\<close> or a part of one, which holds no whitespace. The limit on the number of
  digits that Python 3.11 introduced is not modelled.
\<close>

definition is_digit :: "char \<Rightarrow> bool" where
  "is_digit c = (c \<in> set ''0123456789'')"

definition is_hexdigit :: "char \<Rightarrow> bool" where
  "is_hexdigit c = (c \<in> set ''0123456789abcdefABCDEF'')"

definition digit_val :: "char \<Rightarrow> int" where
  "digit_val c =
     (if is_digit c then int (of_char c) - 48
      else if c \<in> set ''abcdef'' then int (of_char c) - 87
      else int (of_char c) - 55)"

fun strip_underscores :: "(char \<Rightarrow> bool) \<Rightarrow> string \<Rightarrow> string option" where
  "strip_underscores P [] = None"
| "strip_underscores P [c] = (if P c then Some [c] else None)"
| "strip_underscores P (c # d # cs) =
     (if \<not> P c then None
      else if d = CHR ''_'' then map_option (Cons c) (strip_underscores P cs)
      else map_option (Cons c) (strip_underscores P (d # cs)))"

definition digits_value :: "int \<Rightarrow> string \<Rightarrow> int" where
  "digits_value base ds = foldl (\<lambda>a c. base * a + digit_val c) 0 ds"

fun split_sign :: "string \<Rightarrow> int \<times> string" where
  "split_sign [] = (1, [])"
| "split_sign (c # cs) =
     (if c = CHR ''-'' then (-1, cs) else if c = CHR ''+'' then (1, cs) else (1, c # cs))"

definition py_int :: "string \<Rightarrow> int option" where
  "py_int s =
     (case split_sign s of (sg, body) \<Rightarrow>
        map_option (\<lambda>ds. sg * digits_value 10 ds) (strip_underscores is_digit body))"

fun skip_0x :: "string \<Rightarrow> string" where
  "skip_0x (a # b # cs) =
     (if a = CHR ''0'' \<and> (b = CHR ''x'' \<or> b = CHR ''X'')
      then (case cs of [] \<Rightarrow> [] | u # r \<Rightarrow> if u = CHR ''_'' then r else u # r)
      else a # b # cs)"
| "skip_0x s = s"

definition py_int16 :: "string \<Rightarrow> int option" where
  "py_int16 s =
     (case split_sign s of (sg, body) \<Rightarrow>
        map_option (\<lambda>ds. sg * digits_value 16 ds) (strip_underscores is_hexdigit (skip_0x body)))"

subsection \<open>The four patterns (lines 26 to 29)\<close>

text \<open>
  Each matcher returns the groups that \<open>parseline\<close> reads, or \<open>None\<close> where \<open>match\<close> returns
  \<open>None\<close>. A repetition of a character class is always followed by a character outside
  the class, so it matches the longest run and nothing is left to backtracking. \<open>$\<close> matches
  at the end and before a final newline. Below 256 \<open>\d\<close> is \<open>0\<close> to \<open>9\<close>.
\<close>

fun expect :: "char \<Rightarrow> string \<Rightarrow> string option" where
  "expect c [] = None"
| "expect c (x # xs) = (if x = c then Some xs else None)"

fun expect_str :: "string \<Rightarrow> string \<Rightarrow> string option" where
  "expect_str [] s = Some s"
| "expect_str (c # cs) s = Option.bind (expect c s) (expect_str cs)"

definition at_end :: "string \<Rightarrow> bool" where
  "at_end s = (s = [] \<or> s = [CHR 0x0A])"

text \<open>\<open>\d{1,3}\<close> and \<open>\d+\<close>: the digits matched and the rest.\<close>

definition digits_1_3 :: "string \<Rightarrow> (string \<times> string) option" where
  "digits_1_3 s =
     (let d = takeWhile is_digit s
      in if 1 \<le> length d \<and> length d \<le> 3 then Some (d, dropWhile is_digit s) else None)"

definition digits_1 :: "string \<Rightarrow> (string \<times> string) option" where
  "digits_1 s =
     (let d = takeWhile is_digit s
      in if 1 \<le> length d then Some (d, dropWhile is_digit s) else None)"

text \<open>\<open>^((\d{1,3})\.(\d{1,3})\.(\d{1,3})\.(\d{1,3})):(\d+)$\<close>: group 1, groups 2 to 5, group 6.\<close>

definition PATTERN_IPV4 :: "string \<Rightarrow> (string \<times> string list \<times> string) option" where
  "PATTERN_IPV4 s =
     do {
       (a, r) \<leftarrow> digits_1_3 s;
       r \<leftarrow> expect CHR ''.'' r;
       (b, r) \<leftarrow> digits_1_3 r;
       r \<leftarrow> expect CHR ''.'' r;
       (c, r) \<leftarrow> digits_1_3 r;
       r \<leftarrow> expect CHR ''.'' r;
       (d, r) \<leftarrow> digits_1_3 r;
       r \<leftarrow> expect CHR '':'' r;
       (p, r) \<leftarrow> digits_1 r;
       if at_end r then Some (a @ ''.'' @ b @ ''.'' @ c @ ''.'' @ d, [a, b, c, d], p) else None
     }"

text \<open>\<open>^\[([0-9a-z:]+)\]:(\d+)$\<close>: groups 1 and 2.\<close>

definition is_ipv6_char :: "char \<Rightarrow> bool" where
  "is_ipv6_char c = (c \<in> set ''0123456789abcdefghijklmnopqrstuvwxyz:'')"

definition PATTERN_IPV6 :: "string \<Rightarrow> (string \<times> string) option" where
  "PATTERN_IPV6 s =
     do {
       r \<leftarrow> expect CHR ''['' s;
       let a = takeWhile is_ipv6_char r;
       r \<leftarrow> (if 1 \<le> length a then Some (dropWhile is_ipv6_char r) else None);
       r \<leftarrow> expect CHR '']'' r;
       r \<leftarrow> expect CHR '':'' r;
       (p, r) \<leftarrow> digits_1 r;
       if at_end r then Some (a, p) else None
     }"

text \<open>\<open>^([abcdefghijklmnopqrstuvwxyz234567]{16}\.onion):(\d+)$\<close>: groups 1 and 2.\<close>

definition is_base32_char :: "char \<Rightarrow> bool" where
  "is_base32_char c = (c \<in> set ''abcdefghijklmnopqrstuvwxyz234567'')"

definition PATTERN_ONION :: "string \<Rightarrow> (string \<times> string) option" where
  "PATTERN_ONION s =
     do {
       let a = take 16 s;
       r \<leftarrow> (if length a = 16 \<and> list_all is_base32_char a then Some (drop 16 s) else None);
       r \<leftarrow> expect_str ''.onion'' r;
       r \<leftarrow> expect CHR '':'' r;
       (p, r) \<leftarrow> digits_1 r;
       if at_end r then Some (a @ ''.onion'', p) else None
     }"

text \<open>
  \<open>^(/ZMGCore:2.2.(0|1|99)/)$\<close>, as a test. The two dots are not escaped: each matches any
  character but a newline.
\<close>

definition PATTERN_AGENT :: "string \<Rightarrow> bool" where
  "PATTERN_AGENT s =
     (case expect_str ''/ZMGCore:2'' s of
        None \<Rightarrow> False
      | Some r \<Rightarrow>
          (case r of
             c1 # t # c2 # rest \<Rightarrow>
               c1 \<noteq> CHR 0x0A \<and> t = CHR ''2'' \<and> c2 \<noteq> CHR 0x0A \<and>
               (case expect_str ''0/'' rest of
                  Some e \<Rightarrow> at_end e
                | None \<Rightarrow>
                    (case expect_str ''1/'' rest of
                       Some e \<Rightarrow> at_end e
                     | None \<Rightarrow>
                         (case expect_str ''99/'' rest of Some e \<Rightarrow> at_end e | None \<Rightarrow> False)))
           | _ \<Rightarrow> False))"

text \<open>\<open>re.sub(' ', '-', s)\<close>.\<close>

definition sub_space_hyphen :: "string \<Rightarrow> string" where
  "sub_space_hyphen s = map (\<lambda>c. if c = CHR '' '' then CHR ''-'' else c) s"

subsection \<open>\<open>parseline\<close> (lines 31 to 99)\<close>

text \<open>
  The loop of lines 58 to 61 over the groups 2 to 5: \<open>Inr None\<close> is the \<open>return None\<close> of
  line 60, and \<open>n\<close> is the variable \<open>ip\<close> of the source.
\<close>

fun ipv4_loop :: "string list \<Rightarrow> nat \<Rightarrow> int \<Rightarrow> error + int option" where
  "ipv4_loop [] i n = Inr (Some n)"
| "ipv4_loop (g # gs) i n =
     (case py_int g of
        None \<Rightarrow> Inl ValueError
      | Some v \<Rightarrow>
          if v < 0 \<or> v > 255 then Inr None
          else ipv4_loop gs (Suc i) (n + push_bit (8 * (3 - i)) v))"

text \<open>
  Lines 35 to 67 on the first token: \<open>net\<close>, the address text, \<open>port\<close>, \<open>ip\<close> and
  \<open>sortkey\<close>, or \<open>Inr None\<close> where the line is given up.
\<close>

definition parse_address ::
  "string \<Rightarrow> error + (net \<times> string \<times> int \<times> int option \<times> sortkey) option" where
  "parse_address tok =
     (case PATTERN_IPV4 tok of
        None \<Rightarrow>
          (case PATTERN_IPV6 tok of
             None \<Rightarrow>
               (case PATTERN_ONION tok of
                  None \<Rightarrow> Inr None
                | Some (g1, g2) \<Rightarrow>
                    (case py_int g2 of
                       None \<Rightarrow> Inl ValueError
                     | Some p \<Rightarrow> Inr (Some (onion, g1, p, None, KStr g1))))
           | Some (g1, g2) \<Rightarrow>
               if g1 \<in> set [''::''] then Inr None
               else (case py_int g2 of
                       None \<Rightarrow> Inl ValueError
                     | Some p \<Rightarrow> Inr (Some (ipv6, g1, p, None, KStr g1))))
      | Some (g1, gs, g6) \<Rightarrow>
          (case ipv4_loop gs 0 0 of
             Inl e \<Rightarrow> Inl e
           | Inr None \<Rightarrow> Inr None
           | Inr (Some n) \<Rightarrow>
               if n = 0 then Inr None
               else (case py_int g6 of
                       None \<Rightarrow> Inl ValueError
                     | Some p \<Rightarrow> Inr (Some (ipv4, g1, p, Some n, KInt n)))))"

text \<open>Line 69 compares a \<open>str\<close> with the \<open>int\<close> 0, which is never equal.\<close>

definition str_eq_int :: "string \<Rightarrow> int \<Rightarrow> bool" where
  "str_eq_int s n = False"

text \<open>Lines 78 to 81: the user agent, with the two indexings that may be out of range.\<close>

definition parse_agent :: "string list \<Rightarrow> error + string" where
  "parse_agent sline =
     (if length sline > 11 then
        (case get sline 11 of
           Inl e \<Rightarrow> Inl e
         | Inr a \<Rightarrow> (case get sline 12 of Inl e \<Rightarrow> Inl e | Inr b \<Rightarrow> Inr (drop 1 a @ butlast b)))
      else
        (case get sline 11 of Inl e \<Rightarrow> Inl e | Inr a \<Rightarrow> Inr (butlast (drop 1 a))))"

text \<open>
  The whole function. After the test of line 33 the indices 0 to 10 are in range; the
  statements of lines 72 to 85 run in the order of the source, so the first that raises
  decides the exception.
\<close>

definition parseline :: "(string \<Rightarrow> pyfloat option) \<Rightarrow> string \<Rightarrow> error + node option" where
  "parseline to_float line =
     (let sline = str_split line
      in if length sline < 11 then Inr None
         else
           (case parse_address (sline ! 0) of
              Inl e \<Rightarrow> Inl e
            | Inr None \<Rightarrow> Inr None
            | Inr (Some (net', zmgtr, port', ip', sortkey')) \<Rightarrow>
                if str_eq_int (sline ! 1) 0 then Inr None
                else
                  (case to_float (butlast (sline ! 7)) of
                     None \<Rightarrow> Inl ValueError
                   | Some uptime30 \<Rightarrow>
                  (case py_int (sline ! 2) of
                     None \<Rightarrow> Inl ValueError
                   | Some lastsuccess' \<Rightarrow>
                  (case py_int (sline ! 10) of
                     None \<Rightarrow> Inl ValueError
                   | Some version' \<Rightarrow>
                  (case parse_agent sline of
                     Inl e \<Rightarrow> Inl e
                   | Inr agent' \<Rightarrow>
                  (case py_int16 (sline ! 9) of
                     None \<Rightarrow> Inl ValueError
                   | Some service' \<Rightarrow>
                  (case py_int (sline ! 8) of
                     None \<Rightarrow> Inl ValueError
                   | Some blocks' \<Rightarrow>
                       Inr (Some \<lparr>net = net', ip = zmgtr, port = port', ipnum = ip',
                                  uptime = uptime30, lastsuccess = lastsuccess',
                                  version = version', agent = agent', service = service',
                                  blocks = blocks', sortkey = sortkey'\<rparr>)))))))))"

subsection \<open>Comparisons and \<open>list.sort\<close>\<close>

text \<open>
  Comparisons of floats follow IEEE 754: NaN is neither less than nor equal to anything.
\<close>

fun float_lt :: "pyfloat \<Rightarrow> pyfloat \<Rightarrow> bool" where
  "float_lt (Fin a) (Fin b) = (a < b)"
| "float_lt NInf (Fin b) = True"
| "float_lt NInf PInf = True"
| "float_lt (Fin a) PInf = True"
| "float_lt a b = False"

fun float_eq :: "pyfloat \<Rightarrow> pyfloat \<Rightarrow> bool" where
  "float_eq NaN b = False"
| "float_eq a NaN = False"
| "float_eq a b = (a = b)"

text \<open>\<open>x > n\<close> for a float \<open>x\<close> and an int \<open>n\<close> (line 152).\<close>

fun float_gt_int :: "pyfloat \<Rightarrow> int \<Rightarrow> bool" where
  "float_gt_int (Fin a) n = (a > of_int n)"
| "float_gt_int PInf n = True"
| "float_gt_int NInf n = False"
| "float_gt_int NaN n = False"

text \<open>
  Tuples compare at the first position where they are not equal. The key of line 156 is
  \<open>(uptime, lastsuccess, ip)\<close>.
\<close>

definition availability_lt :: "node \<Rightarrow> node \<Rightarrow> bool" where
  "availability_lt a b =
     (if \<not> float_eq (uptime a) (uptime b) then float_lt (uptime a) (uptime b)
      else if lastsuccess a \<noteq> lastsuccess b then lastsuccess a < lastsuccess b
      else ip a < ip b)"

text \<open>
  The key of line 162 is \<open>(net, sortkey)\<close>, \<open>net\<close> being one of three strings. Python raises
  TypeError when an \<open>int\<close> is ordered against a \<open>str\<close>; \<open>parseline\<close> gives an \<open>int\<close>
  sort key to the IPv4 nodes and to no other, so two keys with the same \<open>net\<close> have the
  same type, and here such a pair is left unordered.
\<close>

fun net_name :: "net \<Rightarrow> string" where
  "net_name ipv4 = ''ipv4''"
| "net_name ipv6 = ''ipv6''"
| "net_name onion = ''onion''"

fun sortkey_lt :: "sortkey \<Rightarrow> sortkey \<Rightarrow> bool" where
  "sortkey_lt (KInt a) (KInt b) = (a < b)"
| "sortkey_lt (KStr a) (KStr b) = (a < b)"
| "sortkey_lt a b = False"

definition address_lt :: "node \<Rightarrow> node \<Rightarrow> bool" where
  "address_lt a b =
     (if net_name (net a) \<noteq> net_name (net b) then net_name (net a) < net_name (net b)
      else sortkey_lt (sortkey a) (sortkey b))"

text \<open>
  \<open>list.sort\<close> is stable and compares with \<open><\<close> only: an element goes behind every
  earlier element that is not greater. With \<open>reverse=True\<close> the list is reversed, sorted
  and reversed again, which keeps equal elements in their first order.
\<close>

fun insort_lt :: "('a \<Rightarrow> 'a \<Rightarrow> bool) \<Rightarrow> 'a \<Rightarrow> 'a list \<Rightarrow> 'a list" where
  "insort_lt lt x [] = [x]"
| "insort_lt lt x (y # ys) = (if lt x y then x # y # ys else y # insort_lt lt x ys)"

definition sort_lt :: "('a \<Rightarrow> 'a \<Rightarrow> bool) \<Rightarrow> 'a list \<Rightarrow> 'a list" where
  "sort_lt lt xs = foldl (\<lambda>acc x. insort_lt lt x acc) [] xs"

definition list_sort :: "('a \<Rightarrow> 'a \<Rightarrow> bool) \<Rightarrow> bool \<Rightarrow> 'a list \<Rightarrow> 'a list" where
  "list_sort lt reverse xs = (if reverse then rev (sort_lt lt (rev xs)) else sort_lt lt xs)"

subsection \<open>\<open>filtermultiport\<close> (lines 101 to 106)\<close>

text \<open>\<open>hist[ip['sortkey']].append(ip)\<close> on a \<open>defaultdict(list)\<close>: a new key goes last.\<close>

fun hist_append :: "(sortkey \<times> node list) list \<Rightarrow> node \<Rightarrow> (sortkey \<times> node list) list" where
  "hist_append [] x = [(sortkey x, [x])]"
| "hist_append ((k, v) # h) x =
     (if k = sortkey x then (k, v @ [x]) # h else (k, v) # hist_append h x)"

definition filtermultiport :: "node list \<Rightarrow> node list" where
  "filtermultiport zmg =
     (let hist = foldl hist_append [] zmg
      in [value ! 0. (key, value) \<leftarrow> hist, length value = 1])"

subsection \<open>\<open>filterbyasn\<close> (lines 109 to 137)\<close>

text \<open>The name queried on line 122, and the message of line 130.\<close>

definition asn_query_name :: "string \<Rightarrow> string" where
  "asn_query_name a = join ''.'' (rev (split_on CHR ''.'' a)) @ ''.origin.asn.cymru.com''"

definition asn_error_message :: "string \<Rightarrow> string" where
  "asn_error_message a =
     ''ERR: Could not resolve ASN for '' @ [CHR 0x22] @ a @ [CHR 0x22, CHR 0x0A]"

text \<open>
  The loop of lines 118 to 130 on the state \<open>(result, asn_count, stderr)\<close>. The first
  equation's \<open>if\<close> is the \<open>break\<close> of line 120; the bare \<open>except\<close> catches whatever the
  lookup raises, and nothing else in the \<open>try\<close> block can raise.
\<close>

type_synonym asn_state = "node list \<times> (int \<rightharpoonup> int) \<times> string list"

fun asn_loop ::
  "(string \<Rightarrow> int option) \<Rightarrow> int \<Rightarrow> int \<Rightarrow> node list \<Rightarrow> asn_state \<Rightarrow> asn_state" where
  "asn_loop resolve max_per_asn max_total [] st = st"
| "asn_loop resolve max_per_asn max_total (x # xs) (result, asn_count, stderr) =
     (if int (length result) = max_total then (result, asn_count, stderr)
      else
        (case resolve (asn_query_name (ip x)) of
           None \<Rightarrow>
             asn_loop resolve max_per_asn max_total xs
               (result, asn_count, stderr @ [asn_error_message (ip x)])
         | Some asn \<Rightarrow>
             (let asn_count' = (if asn_count asn = None then asn_count(asn \<mapsto> 0) else asn_count)
              in if asn_count' asn = Some max_per_asn
                 then asn_loop resolve max_per_asn max_total xs (result, asn_count', stderr)
                 else asn_loop resolve max_per_asn max_total xs
                        (result @ [x], asn_count'(asn \<mapsto> the (asn_count' asn) + 1), stderr))))"

text \<open>The function returns the list; the second component is what it wrote to \<open>stderr\<close>.\<close>

definition filterbyasn ::
  "(string \<Rightarrow> int option) \<Rightarrow> node list \<Rightarrow> int \<Rightarrow> int \<Rightarrow> node list \<times> string list" where
  "filterbyasn resolve zmg max_per_asn max_total =
     (let zmg_ipv4 = [x \<leftarrow> zmg. net x = ipv4];
          zmg_ipv6 = [x \<leftarrow> zmg. net x = ipv6];
          zmg_onion = [x \<leftarrow> zmg. net x = onion]
      in case asn_loop resolve max_per_asn max_total zmg_ipv4 ([], Map.empty, []) of
           (result, asn_count, stderr) \<Rightarrow> (result @ zmg_ipv6 @ zmg_onion, stderr))"

subsection \<open>\<open>main\<close> (lines 139 to 168)\<close>

text \<open>Line 141: the comprehension stops at the first line on which \<open>parseline\<close> raises.\<close>

fun parse_lines :: "(string \<Rightarrow> pyfloat option) \<Rightarrow> string list \<Rightarrow> error + node option list" where
  "parse_lines to_float [] = Inr []"
| "parse_lines to_float (l # ls) =
     (case parseline to_float l of
        Inl e \<Rightarrow> Inl e
      | Inr p \<Rightarrow> (case parse_lines to_float ls of Inl e \<Rightarrow> Inl e | Inr ps \<Rightarrow> Inr (p # ps)))"

text \<open>Lines 146 to 154, the five tests in the order of the source.\<close>

definition quality :: "node list \<Rightarrow> node list" where
  "quality zmg0 =
     (let zmg1 = [x \<leftarrow> zmg0. ip x \<notin> SUSPICIOUS_HOSTS];
          zmg2 = [x \<leftarrow> zmg1. blocks x \<ge> MIN_BLOCKS];
          zmg3 = [x \<leftarrow> zmg2. (service x AND 1) = 1];
          zmg4 = [x \<leftarrow> zmg3. float_gt_int (uptime x) 50];
          zmg5 = [x \<leftarrow> zmg4. PATTERN_AGENT (sub_space_hyphen (agent x))]
      in zmg5)"

text \<open>\<open>'%i'\<close> of an \<open>int\<close>, and the two formats of lines 166 and 168.\<close>

fun str_nat :: "nat \<Rightarrow> string" where
  "str_nat n =
     (if n < 10 then [''0123456789'' ! n]
      else str_nat (n div 10) @ [''0123456789'' ! (n mod 10)])"

definition str_int :: "int \<Rightarrow> string" where
  "str_int i = (if i < 0 then ''-'' @ str_nat (nat (- i)) else str_nat (nat i))"

definition emit :: "node \<Rightarrow> string" where
  "emit x =
     (if net x = ipv6 then ''['' @ ip x @ '']:'' @ str_int (port x)
      else ip x @ '':'' @ str_int (port x))"

text \<open>The records at the four stages after parsing, for the lines that all parse.\<close>

definition quality_sorted :: "node option list \<Rightarrow> node list" where
  "quality_sorted parsed =
     list_sort availability_lt True (quality (map the [p \<leftarrow> parsed. p \<noteq> None]))"

definition selected ::
  "(string \<Rightarrow> int option) \<Rightarrow> node option list \<Rightarrow> node list \<times> string list" where
  "selected resolve parsed =
     filterbyasn resolve (filtermultiport (quality_sorted parsed)) MAX_SEEDS_PER_ASN NSEEDS"

text \<open>
  \<open>main\<close> from the lines of standard input to the lines printed and the text written to
  \<open>stderr\<close>, or to the exception that ends the run.
\<close>

definition main ::
  "(string \<Rightarrow> pyfloat option) \<Rightarrow> (string \<Rightarrow> int option) \<Rightarrow> string list
     \<Rightarrow> error + (string list \<times> string list)" where
  "main to_float resolve lines =
     (case parse_lines to_float lines of
        Inl e \<Rightarrow> Inl e
      | Inr parsed \<Rightarrow>
          (case selected resolve parsed of
             (zmg, stderr) \<Rightarrow>
               Inr (map emit (list_sort address_lt False zmg), stderr)))"

text \<open>
  A table of some values of \<open>float\<close>, to run \<open>parseline\<close> and \<open>main\<close> on concrete lines; a
  string outside the table is taken to raise.
\<close>

definition float_table :: "string \<Rightarrow> pyfloat option" where
  "float_table =
     map_of [(''100.0'', Fin 100), (''99.5'', Fin (199 / 2)), (''50.0'', Fin 50),
             (''40'', Fin 40), (''inf'', PInf), (''nan'', NaN)]"

subsection \<open>Notions used in the proofs\<close>

text \<open>
  The histogram that \<open>filtermultiport\<close> builds, the list it reads off the histogram, the
  invariant of the histogram, and the records whose sort key occurs once.
\<close>

definition hist_of :: "node list \<Rightarrow> (sortkey \<times> node list) list" where
  "hist_of zmg = foldl hist_append [] zmg"

definition singles :: "(sortkey \<times> node list) list \<Rightarrow> node list" where
  "singles h = [value ! 0. (key, value) \<leftarrow> h, length value = 1]"

definition hist_inv :: "(sortkey \<times> node list) list \<Rightarrow> bool" where
  "hist_inv h =
     (distinct (map fst h) \<and> (\<forall>(k, v) \<in> set h. v \<noteq> [] \<and> (\<forall>y \<in> set v. sortkey y = k)))"

definition unique_key :: "node list \<Rightarrow> node \<Rightarrow> bool" where
  "unique_key zmg x = (length [y \<leftarrow> zmg. sortkey y = sortkey x] = 1)"

text \<open>
  Descending order of the key of line 156: the key of \<open>a\<close> is greater than that of \<open>b\<close>, or
  the two keys are the same.
\<close>

definition availability_ge :: "node \<Rightarrow> node \<Rightarrow> bool" where
  "availability_ge a b =
     (availability_lt b a \<or>
      (uptime a = uptime b \<and> lastsuccess a = lastsuccess b \<and> ip a = ip b))"

text \<open>
  One iteration of the loop of \<open>filterbyasn\<close> below the \<open>break\<close>, and the invariant of the
  loop: the accepted records are at most \<open>max_total\<close>, \<open>asn_count\<close> counts the accepted records
  of each ASN and stays at or below \<open>max_per_asn\<close>, and every accepted record resolved.
\<close>

definition asn_step :: "(string \<Rightarrow> int option) \<Rightarrow> int \<Rightarrow> node \<Rightarrow> asn_state \<Rightarrow> asn_state" where
  "asn_step resolve max_per_asn x st =
     (case st of (result, asn_count, stderr) \<Rightarrow>
        (case resolve (asn_query_name (ip x)) of
           None \<Rightarrow> (result, asn_count, stderr @ [asn_error_message (ip x)])
         | Some asn \<Rightarrow>
             (let asn_count' = (if asn_count asn = None then asn_count(asn \<mapsto> 0) else asn_count)
              in if asn_count' asn = Some max_per_asn then (result, asn_count', stderr)
                 else (result @ [x], asn_count'(asn \<mapsto> the (asn_count' asn) + 1), stderr))))"

definition asn_inv :: "(string \<Rightarrow> int option) \<Rightarrow> int \<Rightarrow> int \<Rightarrow> asn_state \<Rightarrow> bool" where
  "asn_inv resolve max_per_asn max_total st =
     (case st of (result, asn_count, stderr) \<Rightarrow>
        int (length result) \<le> max_total \<and>
        (\<forall>a. int (length [x \<leftarrow> result. resolve (asn_query_name (ip x)) = Some a]) =
               (case asn_count a of None \<Rightarrow> 0 | Some c \<Rightarrow> c)) \<and>
        (\<forall>a c. asn_count a = Some c \<longrightarrow> c \<le> max_per_asn) \<and>
        (\<forall>x \<in> set result. resolve (asn_query_name (ip x)) \<noteq> None))"

text \<open>Sample records and lookups, for running the functions on concrete input.\<close>

definition node4 :: "string \<Rightarrow> int \<Rightarrow> node" where
  "node4 a n =
     \<lparr>net = ipv4, ip = a, port = 8333, ipnum = Some n, uptime = Fin 100,
      lastsuccess = 1614000000, version = 70015, agent = ''/ZMGCore:2.2.0/'', service = 1,
      blocks = 700000, sortkey = KInt n\<rparr>"

definition node6 :: "string \<Rightarrow> node" where
  "node6 a =
     \<lparr>net = ipv6, ip = a, port = 8333, ipnum = None, uptime = Fin 100,
      lastsuccess = 1614000000, version = 70015, agent = ''/ZMGCore:2.2.0/'', service = 1,
      blocks = 700000, sortkey = KStr a\<rparr>"

definition one_asn :: "string \<Rightarrow> int option" where
  "one_asn name = Some 64500"

definition no_asn :: "string \<Rightarrow> int option" where
  "no_asn name = None"

definition three_and_one :: "node list" where
  "three_and_one =
     [node4 ''1.2.3.4'' 16909060, node4 ''1.2.3.5'' 16909061, node4 ''1.2.3.6'' 16909062,
      node6 ''2001:db8::1'']"


text \<open>
  Sample lines in the format of the seeder's report: address, good, lastSuccess, five
  percentages, blocks, services, version and the quoted user agent. The agent of the first
  holds a space, so the line splits into 13 tokens; \<open>node_good\<close> is what \<open>parseline\<close> makes
  of it. The agent of \<open>line_12\<close> holds none, so that line splits into 12 tokens.
\<close>

definition line_good :: string where
  \<open>line_good =
     ''1.2.3.4:8333 1 1614000000 100.0% 100.0% 100.0% 100.0% 100.0% 700000 0000000d 70015 "/ZMG Core:2.2.0/"''\<close>

definition node_good :: node where
  "node_good =
     \<lparr>net = ipv4, ip = ''1.2.3.4'', port = 8333, ipnum = Some 16909060, uptime = Fin 100,
      lastsuccess = 1614000000, version = 70015, agent = ''/ZMGCore:2.2.0/'', service = 13,
      blocks = 700000, sortkey = KInt 16909060\<rparr>"


definition line_12 :: string where
  \<open>line_12 =
     ''5.6.7.8:8333 1 1614000000 100.0% 100.0% 100.0% 100.0% 100.0% 700000 0000000d 70015 "/ZMGCore:2.2.0/"''\<close>

definition line_zero :: string where
  \<open>line_zero =
     ''0.0.0.0:8333 1 1614000000 100.0% 100.0% 100.0% 100.0% 100.0% 700000 0000000d 70015 "/ZMG Core:2.2.0/"''\<close>

definition line_unspecified6 :: string where
  \<open>line_unspecified6 =
     ''[::]:8333 1 1614000000 100.0% 100.0% 100.0% 100.0% 100.0% 700000 0000000d 70015 "/ZMG Core:2.2.0/"''\<close>

text \<open>
  A sort key of the type that goes with \<open>net\<close>, as \<open>parseline\<close> builds it; and the records
  that \<open>main\<close> prints, in the order in which it prints them.
\<close>

definition key_matches_net :: "node \<Rightarrow> bool" where
  "key_matches_net x = (case sortkey x of KInt n \<Rightarrow> net x = ipv4 | KStr s \<Rightarrow> net x \<noteq> ipv4)"

definition printed :: "(string \<Rightarrow> int option) \<Rightarrow> node option list \<Rightarrow> node list" where
  "printed resolve parsed = list_sort address_lt False (fst (selected resolve parsed))"

text \<open>
  Two more lines of a report, with a lower address and uptime and with an IPv6 address, the
  records \<open>parseline\<close> makes of them, and a record with an uptime of exactly 50.
\<close>

definition line_low :: string where
  \<open>line_low =
     ''1.2.3.3:8333 1 1614000000 100.0% 100.0% 100.0% 100.0% 99.5% 700000 0000000d 70015 "/ZMG Core:2.2.0/"''\<close>

definition node_low :: node where
  "node_low =
     \<lparr>net = ipv4, ip = ''1.2.3.3'', port = 8333, ipnum = Some 16909059, uptime = Fin (199 / 2),
      lastsuccess = 1614000000, version = 70015, agent = ''/ZMGCore:2.2.0/'', service = 13,
      blocks = 700000, sortkey = KInt 16909059\<rparr>"

definition line_six :: string where
  \<open>line_six =
     ''[2001:db8::1]:8333 1 1614000000 100.0% 100.0% 100.0% 100.0% 100.0% 700000 0000000d 70015 "/ZMG Core:2.2.0/"''\<close>

definition node_six :: node where
  "node_six =
     \<lparr>net = ipv6, ip = ''2001:db8::1'', port = 8333, ipnum = None, uptime = Fin 100,
      lastsuccess = 1614000000, version = 70015, agent = ''/ZMGCore:2.2.0/'', service = 13,
      blocks = 700000, sortkey = KStr ''2001:db8::1''\<rparr>"

definition node_fifty :: node where
  "node_fifty = node_good\<lparr>uptime := Fin 50\<rparr>"

section \<open>Properties\<close>

subsection \<open>Short lines\<close>

text \<open>
  Claim C10. A line that splits into fewer than 11 tokens is rejected: \<open>parseline\<close> returns
  \<open>None\<close> and raises nothing.
\<close>

theorem parseline_short:
  "length (str_split line) < 11 \<Longrightarrow> parseline to_float line = Inr None"
  by (simp add: parseline_def)

theorem parseline_short_witness:
  "length (str_split ''1.2.3.4:8333 1 1614000000'') < 11 \<and>
   parseline float_table ''1.2.3.4:8333 1 1614000000'' = Inr None"
  using parseline_short [of "''1.2.3.4:8333 1 1614000000''" float_table]
  by (simp add: str_split_def is_space_def)

subsection \<open>The collision filter\<close>

lemma keys_hist_append: "fst ` set (hist_append h x) = insert (sortkey x) (fst ` set h)"
  by (induction h x rule: hist_append.induct) auto

lemma hist_inv_append: "hist_inv h \<Longrightarrow> hist_inv (hist_append h x)"
proof (induction h x rule: hist_append.induct)
  case (1 x)
  then show ?case by (simp add: hist_inv_def)
next
  case (2 k v h x)
  from 2 have "hist_inv h" by (simp add: hist_inv_def)
  with 2 have ih: "k \<noteq> sortkey x \<Longrightarrow> hist_inv (hist_append h x)" by simp
  show ?case
  proof (cases "k = sortkey x")
    case True
    with 2(2) show ?thesis by (auto simp: hist_inv_def)
  next
    case False
    from ih [OF False] 2(2) False show ?thesis
      using keys_hist_append [of h x]
      by (auto simp: hist_inv_def)
  qed
qed


lemma singles_Nil: "singles [] = []"
  by (simp add: singles_def)

lemma singles_Cons: "singles ((k, v) # h) = (if length v = 1 then [v ! 0] else []) @ singles h"
  by (simp add: singles_def)

lemma singles_keys: "hist_inv h \<Longrightarrow> y \<in> set (singles h) \<Longrightarrow> sortkey y \<in> fst ` set h"
proof (induction h)
  case Nil
  then show ?case by (simp add: singles_Nil)
next
  case (Cons p h)
  obtain k v where p: "p = (k, v)" by (cases p)
  from Cons.prems(1) have inv: "hist_inv h" and kv: "\<forall>z \<in> set v. sortkey z = k"
    by (auto simp: hist_inv_def p)
  show ?case
  proof (cases "y \<in> set (singles h)")
    case True
    with Cons.IH inv show ?thesis by auto
  next
    case False
    with Cons.prems(2) have "length v = 1" and "y = v ! 0"
      by (auto simp: p singles_Cons split: if_splits)
    then have "y \<in> set v" by (cases v) auto
    with kv show ?thesis by (simp add: p)
  qed
qed

lemma singles_no_key:
  assumes "hist_inv h" and "kx \<notin> fst ` set h"
  shows "[y \<leftarrow> singles h. sortkey y \<noteq> kx] = singles h"
proof -
  have "\<forall>y \<in> set (singles h). sortkey y \<noteq> kx"
    using singles_keys [OF assms(1)] assms(2) by blast
  then show ?thesis by simp
qed

lemma singles_hist_append:
  "hist_inv h \<Longrightarrow>
   singles (hist_append h x) =
     [y \<leftarrow> singles h. sortkey y \<noteq> sortkey x] @ (if sortkey x \<in> fst ` set h then [] else [x])"
proof (induction h x rule: hist_append.induct)
  case (1 x)
  then show ?case by (simp add: singles_Nil singles_Cons)
next
  case (2 k v h x)
  from 2(2) have inv: "hist_inv h" and nk: "k \<notin> fst ` set h"
    and ne: "v \<noteq> []" and kv: "\<forall>z \<in> set v. sortkey z = k"
    by (auto simp: hist_inv_def)
  show ?case
  proof (cases "k = sortkey x")
    case True
    from ne have len: "length (v @ [x]) \<noteq> 1" by (cases v) auto
    have hd: "length v = 1 \<Longrightarrow> sortkey (v ! 0) = sortkey x"
      using kv True by (cases v) auto
    from True nk have rest: "[y \<leftarrow> singles h. sortkey y \<noteq> sortkey x] = singles h"
      using singles_no_key [OF inv] by simp
    from True len hd rest show ?thesis
      by (simp add: singles_Cons)
  next
    case False
    have hd: "length v = 1 \<Longrightarrow> sortkey (v ! 0) \<noteq> sortkey x"
      using kv False by (cases v) auto
    from False hd 2(1) [OF False inv] show ?thesis
      by (auto simp: singles_Cons)
  qed
qed

lemma unique_snoc:
  "[y \<leftarrow> zs @ [x]. unique_key (zs @ [x]) y] =
     [y \<leftarrow> [y \<leftarrow> zs. unique_key zs y]. sortkey y \<noteq> sortkey x] @
       (if sortkey x \<in> sortkey ` set zs then [] else [x])"
proof -
  have a: "[y \<leftarrow> zs. unique_key (zs @ [x]) y] = [y \<leftarrow> zs. unique_key zs y \<and> sortkey y \<noteq> sortkey x]"
  proof (rule filter_cong [OF refl])
    fix y assume "y \<in> set zs"
    then have "[z \<leftarrow> zs. sortkey z = sortkey y] \<noteq> []"
      by (auto simp: filter_empty_conv)
    then have "length [z \<leftarrow> zs. sortkey z = sortkey y] \<noteq> 0" by simp
    then show "unique_key (zs @ [x]) y = (unique_key zs y \<and> sortkey y \<noteq> sortkey x)"
      by (auto simp: unique_key_def)
  qed
  have b: "unique_key (zs @ [x]) x = (sortkey x \<notin> sortkey ` set zs)"
    by (auto simp: unique_key_def filter_empty_conv intro: rev_image_eqI)
  show ?thesis by (simp add: a b)
qed

lemma hist_of_snoc: "hist_of (zs @ [x]) = hist_append (hist_of zs) x"
  by (simp add: hist_of_def)

lemma hist_of_inv: "hist_inv (hist_of zs) \<and> fst ` set (hist_of zs) = sortkey ` set zs"
proof (induction zs rule: rev_induct)
  case Nil
  then show ?case by (simp add: hist_of_def hist_inv_def)
next
  case (snoc x zs)
  then show ?case
    by (simp add: hist_of_snoc hist_inv_append keys_hist_append)
qed

lemma singles_hist_of: "singles (hist_of zs) = [y \<leftarrow> zs. unique_key zs y]"
proof (induction zs rule: rev_induct)
  case Nil
  then show ?case by (simp add: hist_of_def singles_Nil)
next
  case (snoc x zs)
  from hist_of_inv [of zs] have inv: "hist_inv (hist_of zs)"
    and keys: "fst ` set (hist_of zs) = sortkey ` set zs" by simp_all
  show ?case
    unfolding hist_of_snoc singles_hist_append [OF inv] unique_snoc keys snoc.IH ..
qed

lemma filtermultiport_filter: "filtermultiport zmg = [x \<leftarrow> zmg. unique_key zmg x]"
  using singles_hist_of [of zmg] by (simp add: filtermultiport_def hist_of_def singles_def)


lemma distinct_map_if_few:
  "(\<forall>x \<in> set ys. length [y \<leftarrow> ys. f y = f x] \<le> 1) \<Longrightarrow> distinct (map f ys)"
proof (induction ys)
  case Nil
  then show ?case by simp
next
  case (Cons a ys)
  have "f a \<notin> f ` set ys"
  proof
    assume "f a \<in> f ` set ys"
    then have "[y \<leftarrow> ys. f y = f a] \<noteq> []" by (auto simp: filter_empty_conv)
    then have "length [y \<leftarrow> ys. f y = f a] \<noteq> 0" by simp
    moreover from Cons.prems have "length [y \<leftarrow> a # ys. f y = f a] \<le> 1" by simp
    ultimately show False by simp
  qed
  moreover have "\<forall>x \<in> set ys. length [y \<leftarrow> ys. f y = f x] \<le> 1"
  proof
    fix x assume "x \<in> set ys"
    with Cons.prems have "length [y \<leftarrow> a # ys. f y = f x] \<le> 1" by simp
    then show "length [y \<leftarrow> ys. f y = f x] \<le> 1" by (simp split: if_splits)
  qed
  ultimately show ?case using Cons.IH by simp
qed

lemma distinct_unique: "distinct (map sortkey [x \<leftarrow> zmg. unique_key zmg x])"
proof (rule distinct_map_if_few, rule ballI)
  fix x assume "x \<in> set [x \<leftarrow> zmg. unique_key zmg x]"
  then have u: "length [y \<leftarrow> zmg. sortkey y = sortkey x] = 1" by (simp add: unique_key_def)
  have "[y \<leftarrow> [x \<leftarrow> zmg. unique_key zmg x]. sortkey y = sortkey x] =
        [y \<leftarrow> [y \<leftarrow> zmg. sortkey y = sortkey x]. unique_key zmg y]"
    by (simp add: conj_commute)
  then have "length [y \<leftarrow> [x \<leftarrow> zmg. unique_key zmg x]. sortkey y = sortkey x]
               \<le> length [y \<leftarrow> zmg. sortkey y = sortkey x]"
    by (simp only: length_filter_le)
  with u show "length [y \<leftarrow> [x \<leftarrow> zmg. unique_key zmg x]. sortkey y = sortkey x] \<le> 1" by simp
qed

text \<open>
  Claim C4. \<open>filtermultiport\<close> keeps exactly the records whose sort key no other record of
  the input has, in the order of the input: when two or more records share a sort key all
  of them go, a record with a sort key of its own stays, and no sort key occurs twice in
  the output.
\<close>

theorem filtermultiport_unique_keys:
  "filtermultiport zmg = [x \<leftarrow> zmg. length [y \<leftarrow> zmg. sortkey y = sortkey x] = 1] \<and>
   distinct (map sortkey (filtermultiport zmg))"
  using filtermultiport_filter [of zmg] distinct_unique [of zmg]
  by (simp add: unique_key_def)

theorem filtermultiport_unique_keys_witness:
  "filtermultiport
     [node4 ''1.2.3.4'' 16909060, node4 ''1.2.3.5'' 16909061,
      (node4 ''1.2.3.4'' 16909060)\<lparr>port := 8334\<rparr>] =
   [node4 ''1.2.3.5'' 16909061]"
  using filtermultiport_unique_keys
    [of "[node4 ''1.2.3.4'' 16909060, node4 ''1.2.3.5'' 16909061,
          (node4 ''1.2.3.4'' 16909060)\<lparr>port := 8334\<rparr>]"]
  by (simp add: node4_def)

subsection \<open>Sorting\<close>

text \<open>
  \<open>list_sort\<close> permutes its input, and when \<open><\<close> is transitive and asymmetric no element
  of the result is less than an earlier one.
\<close>

lemma set_insort_lt: "set (insort_lt lt x ys) = insert x (set ys)"
  by (induction ys) auto

lemma mset_insort_lt: "mset (insort_lt lt x ys) = add_mset x (mset ys)"
  by (induction ys) auto

lemma sorted_insort_lt:
  assumes "transp lt" and "asymp lt"
  shows "sorted_wrt (\<lambda>a b. \<not> lt b a) ys \<Longrightarrow> sorted_wrt (\<lambda>a b. \<not> lt b a) (insort_lt lt x ys)"
proof (induction ys)
  case Nil
  then show ?case by simp
next
  case (Cons y ys)
  show ?case
  proof (cases "lt x y")
    case True
    have "\<not> lt z x" if "z \<in> set ys" for z
    proof
      assume "lt z x"
      from transpD [OF assms(1) this True] have "lt z y" .
      moreover from Cons.prems that have "\<not> lt z y" by simp
      ultimately show False by simp
    qed
    with True Cons.prems asympD [OF assms(2) True] show ?thesis by auto
  next
    case False
    with Cons show ?thesis by (auto simp: set_insort_lt)
  qed
qed

lemma foldl_insort_lt:
  assumes "transp lt" and "asymp lt"
  shows "sorted_wrt (\<lambda>a b. \<not> lt b a) acc \<Longrightarrow>
         sorted_wrt (\<lambda>a b. \<not> lt b a) (foldl (\<lambda>acc x. insort_lt lt x acc) acc xs)"
proof (induction xs arbitrary: acc)
  case Nil
  then show ?case by simp
next
  case (Cons x xs)
  from sorted_insort_lt [OF assms Cons.prems]
  have "sorted_wrt (\<lambda>a b. \<not> lt b a) (insort_lt lt x acc)" .
  from Cons.IH [OF this] show ?case by simp
qed

lemma mset_foldl_insort_lt:
  "mset (foldl (\<lambda>acc x. insort_lt lt x acc) acc xs) = mset acc + mset xs"
  by (induction xs arbitrary: acc) (simp_all add: mset_insort_lt)

lemma mset_list_sort: "mset (list_sort lt reverse xs) = mset xs"
  by (simp add: list_sort_def sort_lt_def mset_foldl_insort_lt)

lemma set_list_sort: "set (list_sort lt reverse xs) = set xs"
  using mset_list_sort [of lt reverse xs] by (metis set_mset_mset)

lemma sorted_list_sort_ascending:
  assumes "transp lt" and "asymp lt"
  shows "sorted_wrt (\<lambda>a b. \<not> lt b a) (list_sort lt False xs)"
  using foldl_insort_lt [OF assms, of "[]" xs]
  by (simp add: list_sort_def sort_lt_def)

lemma sorted_list_sort_descending:
  assumes "transp lt" and "asymp lt"
  shows "sorted_wrt (\<lambda>a b. \<not> lt a b) (list_sort lt True xs)"
  using foldl_insort_lt [OF assms, of "[]" "rev xs"]
  by (simp add: list_sort_def sort_lt_def sorted_wrt_rev)

lemma float_lt_trans: "float_lt a b \<Longrightarrow> float_lt b c \<Longrightarrow> float_lt a c"
  by (cases a; cases b; cases c) auto

lemma float_lt_asym: "float_lt a b \<Longrightarrow> \<not> float_lt b a"
  by (cases a; cases b) auto

lemma float_eq_iff: "float_eq a b = (a = b \<and> a \<noteq> NaN)"
  by (cases a; cases b) auto

lemma float_total: "a \<noteq> NaN \<Longrightarrow> b \<noteq> NaN \<Longrightarrow> float_lt a b \<or> a = b \<or> float_lt b a"
  by (cases a; cases b) auto

lemma availability_lt_trans:
  "availability_lt a b \<Longrightarrow> availability_lt b c \<Longrightarrow> availability_lt a c"
  unfolding availability_lt_def float_eq_iff
  by (auto split: if_splits dest: float_lt_trans float_lt_asym)

lemma availability_lt_asym: "availability_lt a b \<Longrightarrow> \<not> availability_lt b a"
  unfolding availability_lt_def float_eq_iff
  by (auto split: if_splits dest: float_lt_asym)

lemma transp_availability_lt: "transp availability_lt"
  by (rule transpI) (rule availability_lt_trans)

lemma asymp_availability_lt: "asymp availability_lt"
  by (rule asympI) (rule availability_lt_asym)

lemma availability_total:
  "uptime a \<noteq> NaN \<Longrightarrow> uptime b \<noteq> NaN \<Longrightarrow> \<not> availability_lt a b \<Longrightarrow> availability_ge a b"
  unfolding availability_ge_def availability_lt_def float_eq_iff
  using float_total [of "uptime a" "uptime b"]
  by (auto split: if_splits)

lemma float_gt_int_not_NaN: "float_gt_int u n \<Longrightarrow> u \<noteq> NaN"
  by (cases u) auto

lemma quality_iff:
  "x \<in> set (quality zmg) \<longleftrightarrow>
     x \<in> set zmg \<and> ip x \<notin> SUSPICIOUS_HOSTS \<and> blocks x \<ge> MIN_BLOCKS \<and> (service x AND 1) = 1 \<and>
     float_gt_int (uptime x) 50 \<and> PATTERN_AGENT (sub_space_hyphen (agent x))"
  by (auto simp: quality_def)

lemma quality_sorted_descending: "sorted_wrt availability_ge (quality_sorted parsed)"
proof -
  let ?q = "quality (map the [p \<leftarrow> parsed. p \<noteq> None])"
  have s: "sorted_wrt (\<lambda>a b. \<not> availability_lt a b) (quality_sorted parsed)"
    unfolding quality_sorted_def
    by (rule sorted_list_sort_descending [OF transp_availability_lt asymp_availability_lt])
  have n: "uptime x \<noteq> NaN" if "x \<in> set (quality_sorted parsed)" for x
  proof -
    from that have "x \<in> set ?q" by (simp add: quality_sorted_def set_list_sort)
    then have "float_gt_int (uptime x) 50" by (simp add: quality_iff)
    then show ?thesis by (rule float_gt_int_not_NaN)
  qed
  show ?thesis
    by (rule sorted_wrt_mono_rel [OF _ s]) (simp add: availability_total n)
qed

text \<open>
  Claim C7. \<open>filtermultiport\<close> returns a subsequence of its input, so it keeps the order
  of the records it retains. The list that \<open>main\<close> hands to it is sorted by
  \<open>(uptime, lastsuccess, ip)\<close> in descending order (line 156), hence the IPv4 records that
  \<open>filterbyasn\<close> walks through, which are the IPv4 records of the output of
  \<open>filtermultiport\<close> (the third part of the statement), are in that descending order.
\<close>

theorem filtermultiport_keeps_order:
  "subseq (filtermultiport zmg) zmg \<and>
   sorted_wrt availability_ge [x \<leftarrow> filtermultiport (quality_sorted parsed). net x = ipv4] \<and>
   fst (selected resolve parsed) =
     fst (asn_loop resolve MAX_SEEDS_PER_ASN NSEEDS
            [x \<leftarrow> filtermultiport (quality_sorted parsed). net x = ipv4] ([], Map.empty, [])) @
     [x \<leftarrow> filtermultiport (quality_sorted parsed). net x = ipv6] @
     [x \<leftarrow> filtermultiport (quality_sorted parsed). net x = onion]"
proof (intro conjI)
  show "subseq (filtermultiport zmg) zmg"
    by (simp add: filtermultiport_filter)
  show "sorted_wrt availability_ge [x \<leftarrow> filtermultiport (quality_sorted parsed). net x = ipv4]"
    unfolding filtermultiport_filter
    by (intro sorted_wrt_filter quality_sorted_descending)
  show "fst (selected resolve parsed) =
     fst (asn_loop resolve MAX_SEEDS_PER_ASN NSEEDS
            [x \<leftarrow> filtermultiport (quality_sorted parsed). net x = ipv4] ([], Map.empty, [])) @
     [x \<leftarrow> filtermultiport (quality_sorted parsed). net x = ipv6] @
     [x \<leftarrow> filtermultiport (quality_sorted parsed). net x = onion]"
    by (simp add: selected_def filterbyasn_def split: prod.splits)
qed

subsection \<open>The origin filter\<close>

lemma asn_loop_Cons:
  "asn_loop resolve a t (x # xs) st =
     (if int (length (fst st)) = t then st else asn_loop resolve a t xs (asn_step resolve a x st))"
  by (cases st) (simp add: asn_step_def Let_def split: option.split)

lemma asn_step_inv:
  assumes "0 \<le> a" and "asn_inv resolve a t st" and "int (length (fst st)) \<noteq> t"
  shows "asn_inv resolve a t (asn_step resolve a x st)"
proof -
  obtain res cnt err where st: "st = (res, cnt, err)" by (cases st)
  from assms(2) have len: "int (length res) \<le> t"
    and cnt: "\<And>b. int (length [x \<leftarrow> res. resolve (asn_query_name (ip x)) = Some b]) =
               (case cnt b of None \<Rightarrow> 0 | Some c \<Rightarrow> c)"
    and cap: "\<And>b c. cnt b = Some c \<Longrightarrow> c \<le> a"
    and ok: "\<And>y. y \<in> set res \<Longrightarrow> resolve (asn_query_name (ip y)) \<noteq> None"
    by (auto simp: asn_inv_def st)
  from assms(3) len have lt: "int (length res) < t" by (simp add: st)
  show ?thesis
  proof (cases "resolve (asn_query_name (ip x))")
    case None
    with len cnt cap ok show ?thesis
      by (auto simp: asn_inv_def asn_step_def st)
  next
    case (Some n)
    show ?thesis
    proof (cases "cnt n")
      case None
      with Some lt cnt cap ok assms(1) show ?thesis
        by (auto simp: asn_inv_def asn_step_def st Let_def split: option.splits)
    next
      case (Some c)
      then have "c \<le> a" by (rule cap)
      with Some \<open>resolve (asn_query_name (ip x)) = Some n\<close> lt cnt ok
      show ?thesis
        by (auto simp: asn_inv_def asn_step_def st Let_def split: option.splits intro: cap)
    qed
  qed
qed

lemma asn_loop_inv:
  "0 \<le> a \<Longrightarrow> asn_inv resolve a t st \<Longrightarrow> asn_inv resolve a t (asn_loop resolve a t xs st)"
proof (induction xs arbitrary: st)
  case Nil
  then show ?case by simp
next
  case (Cons x xs)
  show ?case
  proof (cases "int (length (fst st)) = t")
    case True
    with Cons.prems show ?thesis by (simp add: asn_loop_Cons)
  next
    case False
    from Cons.IH [OF Cons.prems(1) asn_step_inv [OF Cons.prems False]] False
    show ?thesis by (simp add: asn_loop_Cons)
  qed
qed

lemma asn_inv_init: "0 \<le> t \<Longrightarrow> asn_inv resolve a t ([], Map.empty, [])"
  by (simp add: asn_inv_def)

lemma asn_step_result:
  "fst (asn_step resolve a x st) = fst st \<or> fst (asn_step resolve a x st) = fst st @ [x]"
  by (cases st) (auto simp: asn_step_def Let_def split: option.splits)

lemma asn_step_stderr: "prefix (snd (snd st)) (snd (snd (asn_step resolve a x st)))"
  by (cases st) (auto simp: asn_step_def Let_def split: option.splits)

lemma asn_loop_result:
  "\<exists>ys. fst (asn_loop resolve a t xs st) = fst st @ ys \<and> subseq ys xs"
proof (induction xs arbitrary: st)
  case Nil
  then show ?case by simp
next
  case (Cons x xs)
  show ?case
  proof (cases "int (length (fst st)) = t")
    case True
    then show ?thesis by (simp add: asn_loop_Cons)
  next
    case False
    from Cons.IH [of "asn_step resolve a x st"] obtain ys
      where ys: "fst (asn_loop resolve a t xs (asn_step resolve a x st)) =
                   fst (asn_step resolve a x st) @ ys" "subseq ys xs"
      by blast
    from asn_step_result [of resolve a x st] show ?thesis
    proof
      assume "fst (asn_step resolve a x st) = fst st"
      with ys False show ?thesis by (auto simp: asn_loop_Cons)
    next
      assume "fst (asn_step resolve a x st) = fst st @ [x]"
      with ys False have "fst (asn_loop resolve a t (x # xs) st) = fst st @ (x # ys)"
        by (simp add: asn_loop_Cons)
      moreover from ys(2) have "subseq (x # ys) (x # xs)" by simp
      ultimately show ?thesis by blast
    qed
  qed
qed

lemma asn_loop_stderr: "prefix (snd (snd st)) (snd (snd (asn_loop resolve a t xs st)))"
proof (induction xs arbitrary: st)
  case Nil
  then show ?case by simp
next
  case (Cons x xs)
  from Cons.IH [of "asn_step resolve a x st"] asn_step_stderr [of st resolve a x]
  have "prefix (snd (snd st)) (snd (snd (asn_loop resolve a t xs (asn_step resolve a x st))))"
    by (rule prefix_order.order_trans [rotated])
  then show ?case by (simp add: asn_loop_Cons)
qed

lemma asn_loop_resolved:
  "(\<And>y. y \<in> set (fst st) \<Longrightarrow> resolve (asn_query_name (ip y)) \<noteq> None) \<Longrightarrow>
   y \<in> set (fst (asn_loop resolve a t xs st)) \<Longrightarrow> resolve (asn_query_name (ip y)) \<noteq> None"
proof (induction xs arbitrary: st)
  case Nil
  then show ?case by simp
next
  case (Cons x xs)
  show ?case
  proof (cases "int (length (fst st)) = t")
    case True
    with Cons.prems show ?thesis by (simp add: asn_loop_Cons)
  next
    case False
    have "resolve (asn_query_name (ip z)) \<noteq> None" if "z \<in> set (fst (asn_step resolve a x st))" for z
      using that Cons.prems(1) [of z]
      by (cases st) (auto simp: asn_step_def Let_def split: option.splits if_splits)
    from Cons.IH [OF this] Cons.prems(2) False show ?thesis
      by (simp add: asn_loop_Cons)
  qed
qed

lemma asn_loop_logs:
  "int (length (fst (asn_loop resolve a t xs st))) \<noteq> t \<Longrightarrow> x \<in> set xs \<Longrightarrow>
   resolve (asn_query_name (ip x)) = None \<Longrightarrow>
   asn_error_message (ip x) \<in> set (snd (snd (asn_loop resolve a t xs st)))"
proof (induction xs arbitrary: st)
  case Nil
  then show ?case by simp
next
  case (Cons y ys)
  from Cons.prems(1) have go: "int (length (fst st)) \<noteq> t"
    by (auto simp: asn_loop_Cons split: if_splits)
  then have eq: "asn_loop resolve a t (y # ys) st = asn_loop resolve a t ys (asn_step resolve a y st)"
    by (simp add: asn_loop_Cons)
  show ?case
  proof (cases "x = y")
    case True
    with Cons.prems(3) have "asn_error_message (ip x) \<in> set (snd (snd (asn_step resolve a y st)))"
      by (cases st) (simp add: asn_step_def)
    with asn_loop_stderr [of "asn_step resolve a y st" resolve a t ys] show ?thesis
      unfolding eq by (auto dest: set_mono_prefix)
  next
    case False
    with Cons.prems(2) have "x \<in> set ys" by simp
    from Cons.IH [OF _ this Cons.prems(3)] Cons.prems(1) show ?thesis
      unfolding eq by simp
  qed
qed

lemma filterbyasn_parts:
  "\<exists>ys. asn_loop resolve a t [x \<leftarrow> zmg. net x = ipv4] ([], Map.empty, []) =
           (ys, fst (snd (asn_loop resolve a t [x \<leftarrow> zmg. net x = ipv4] ([], Map.empty, []))),
            snd (filterbyasn resolve zmg a t)) \<and>
        subseq ys [x \<leftarrow> zmg. net x = ipv4] \<and>
        fst (filterbyasn resolve zmg a t) =
          ys @ [x \<leftarrow> zmg. net x = ipv6] @ [x \<leftarrow> zmg. net x = onion]"
proof -
  let ?st = "asn_loop resolve a t [x \<leftarrow> zmg. net x = ipv4] ([], Map.empty, [])"
  from asn_loop_result [of resolve a t "[x \<leftarrow> zmg. net x = ipv4]" "([], Map.empty, [])"]
  have "subseq (fst ?st) [x \<leftarrow> zmg. net x = ipv4]" by auto
  then show ?thesis
    by (cases ?st) (auto simp: filterbyasn_def)
qed

lemma subseq_in_set: "subseq ys xs \<Longrightarrow> y \<in> set ys \<Longrightarrow> y \<in> set xs"
  by (erule list_emb_set) auto

lemma subseq_distinct: "subseq ys xs \<Longrightarrow> distinct xs \<Longrightarrow> distinct ys"
  by (auto simp: subseq_conv_nths)

lemma filterbyasn_subset: "set (fst (filterbyasn resolve zmg a t)) \<subseteq> set zmg"
proof -
  from filterbyasn_parts [of resolve a t zmg] obtain ys
    where ys: "subseq ys [x \<leftarrow> zmg. net x = ipv4]"
      "fst (filterbyasn resolve zmg a t) = ys @ [x \<leftarrow> zmg. net x = ipv6] @ [x \<leftarrow> zmg. net x = onion]"
    by blast
  from subseq_in_set [OF ys(1)] have "set ys \<subseteq> set zmg" by auto
  with ys(2) show ?thesis by auto
qed

lemma filterbyasn_distinct:
  assumes "distinct (map f zmg)"
  shows "distinct (map f (fst (filterbyasn resolve zmg a t)))"
proof -
  from filterbyasn_parts [of resolve a t zmg] obtain ys
    where ys: "subseq ys [x \<leftarrow> zmg. net x = ipv4]"
      "fst (filterbyasn resolve zmg a t) = ys @ [x \<leftarrow> zmg. net x = ipv6] @ [x \<leftarrow> zmg. net x = onion]"
    by blast
  from assms have d: "distinct zmg" and inj: "inj_on f (set zmg)"
    by (simp_all add: distinct_map)
  from subseq_in_set [OF ys(1)] have v4: "\<And>y. y \<in> set ys \<Longrightarrow> y \<in> set zmg \<and> net y = ipv4" by auto
  from subseq_distinct [OF ys(1)] d have "distinct ys" by simp
  with d v4 have "distinct (ys @ [x \<leftarrow> zmg. net x = ipv6] @ [x \<leftarrow> zmg. net x = onion])"
    by auto
  moreover have "inj_on f (set (ys @ [x \<leftarrow> zmg. net x = ipv6] @ [x \<leftarrow> zmg. net x = onion]))"
    by (rule inj_on_subset [OF inj]) (use v4 in auto)
  ultimately show ?thesis by (simp only: ys(2) distinct_map) 
qed

text \<open>
  Claim C1. With caps that are not negative, as the 2 and the 512 of \<open>main\<close> are, and for
  every list of records and every lookup: among the accepted IPv4 records at most
  \<open>max_per_asn\<close> resolve to any one ASN; at most \<open>max_total\<close> IPv4 records are accepted; the
  IPv6 and the Onion records of the input all pass, in their order; the result is the
  accepted IPv4 records followed by those, so \<open>max_total\<close> bounds the IPv4 part only, and a
  list of \<open>max_total + 1\<close> IPv6 records comes out longer than \<open>max_total\<close>.
\<close>

theorem filterbyasn_caps:
  assumes "0 \<le> max_per_asn" and "0 \<le> max_total"
  shows
    "int (length [x \<leftarrow> fst (filterbyasn resolve zmg max_per_asn max_total).
                  net x = ipv4 \<and> resolve (asn_query_name (ip x)) = Some asn]) \<le> max_per_asn \<and>
     int (length [x \<leftarrow> fst (filterbyasn resolve zmg max_per_asn max_total). net x = ipv4])
       \<le> max_total \<and>
     [x \<leftarrow> fst (filterbyasn resolve zmg max_per_asn max_total). net x = ipv6] =
       [x \<leftarrow> zmg. net x = ipv6] \<and>
     [x \<leftarrow> fst (filterbyasn resolve zmg max_per_asn max_total). net x = onion] =
       [x \<leftarrow> zmg. net x = onion] \<and>
     fst (filterbyasn resolve zmg max_per_asn max_total) =
       [x \<leftarrow> fst (filterbyasn resolve zmg max_per_asn max_total). net x = ipv4] @
       [x \<leftarrow> zmg. net x = ipv6] @ [x \<leftarrow> zmg. net x = onion] \<and>
     max_total <
       int (length (fst (filterbyasn resolve (replicate (nat max_total + 1) (node6 ''2001:db8::1''))
                          max_per_asn max_total)))"
proof -
  let ?v4 = "[x \<leftarrow> zmg. net x = ipv4]"
  let ?st = "asn_loop resolve max_per_asn max_total ?v4 ([], Map.empty, [])"
  from filterbyasn_parts [of resolve max_per_asn max_total zmg] obtain ys
    where st: "?st = (ys, fst (snd ?st), snd (filterbyasn resolve zmg max_per_asn max_total))"
      and sub: "subseq ys ?v4"
      and out: "fst (filterbyasn resolve zmg max_per_asn max_total) =
                  ys @ [x \<leftarrow> zmg. net x = ipv6] @ [x \<leftarrow> zmg. net x = onion]"
    by blast
  from subseq_in_set [OF sub] have v4: "\<And>y. y \<in> set ys \<Longrightarrow> net y = ipv4" by auto
  then have f4: "[x \<leftarrow> ys. net x = ipv4] = ys" "[x \<leftarrow> ys. net x = ipv6] = []"
    "[x \<leftarrow> ys. net x = onion] = []"
    by (auto simp: filter_empty_conv)
  from asn_loop_inv [OF assms(1) asn_inv_init [OF assms(2)], of resolve ?v4]
  have "asn_inv resolve max_per_asn max_total
          (ys, fst (snd ?st), snd (filterbyasn resolve zmg max_per_asn max_total))"
    using st by simp
  then have len: "int (length ys) \<le> max_total"
    and cnt: "int (length [x \<leftarrow> ys. resolve (asn_query_name (ip x)) = Some asn]) =
                (case fst (snd ?st) asn of None \<Rightarrow> 0 | Some c \<Rightarrow> c)"
    and cap: "\<And>c. fst (snd ?st) asn = Some c \<Longrightarrow> c \<le> max_per_asn"
    by (auto simp: asn_inv_def)
  from cnt cap assms(1)
  have per: "int (length [x \<leftarrow> ys. resolve (asn_query_name (ip x)) = Some asn]) \<le> max_per_asn"
    by (cases "fst (snd ?st) asn") auto
  have "[x \<leftarrow> ys. net x = ipv4 \<and> resolve (asn_query_name (ip x)) = Some asn] =
        [x \<leftarrow> ys. resolve (asn_query_name (ip x)) = Some asn]"
    by (rule filter_cong) (auto simp: v4)
  with per have c1: "int (length [x \<leftarrow> fst (filterbyasn resolve zmg max_per_asn max_total).
                  net x = ipv4 \<and> resolve (asn_query_name (ip x)) = Some asn]) \<le> max_per_asn"
    by (simp add: out)
  have c2: "int (length [x \<leftarrow> fst (filterbyasn resolve zmg max_per_asn max_total). net x = ipv4])
       \<le> max_total"
    using len by (simp add: out f4)
  have c3: "[x \<leftarrow> fst (filterbyasn resolve zmg max_per_asn max_total). net x = ipv6] =
       [x \<leftarrow> zmg. net x = ipv6]"
    by (simp add: out f4)
  have c4: "[x \<leftarrow> fst (filterbyasn resolve zmg max_per_asn max_total). net x = onion] =
       [x \<leftarrow> zmg. net x = onion]"
    by (simp add: out f4)
  have c5: "fst (filterbyasn resolve zmg max_per_asn max_total) =
       [x \<leftarrow> fst (filterbyasn resolve zmg max_per_asn max_total). net x = ipv4] @
       [x \<leftarrow> zmg. net x = ipv6] @ [x \<leftarrow> zmg. net x = onion]"
    by (simp add: out f4)
  have c6: "max_total <
       int (length (fst (filterbyasn resolve (replicate (nat max_total + 1) (node6 ''2001:db8::1''))
                          max_per_asn max_total)))"
    using assms(2) by (simp add: filterbyasn_def node6_def)
  from c1 c2 c3 c4 c5 c6 show ?thesis by blast
qed


theorem filterbyasn_caps_witness:
  "0 \<le> MAX_SEEDS_PER_ASN \<and> 0 \<le> NSEEDS \<and>
   fst (filterbyasn one_asn three_and_one MAX_SEEDS_PER_ASN NSEEDS) =
     [node4 ''1.2.3.4'' 16909060, node4 ''1.2.3.5'' 16909061, node6 ''2001:db8::1''] \<and>
   int (length [x \<leftarrow> fst (filterbyasn one_asn three_and_one MAX_SEEDS_PER_ASN NSEEDS).
                net x = ipv4 \<and> one_asn (asn_query_name (ip x)) = Some 64500])
     \<le> MAX_SEEDS_PER_ASN \<and>
   int (length [x \<leftarrow> fst (filterbyasn one_asn three_and_one MAX_SEEDS_PER_ASN NSEEDS).
                net x = ipv4]) \<le> NSEEDS \<and>
   NSEEDS <
     int (length (fst (filterbyasn one_asn (replicate (nat NSEEDS + 1) (node6 ''2001:db8::1''))
                        MAX_SEEDS_PER_ASN NSEEDS)))"
proof -
  have h1: "0 \<le> MAX_SEEDS_PER_ASN" by (simp add: MAX_SEEDS_PER_ASN_def)
  have h2: "0 \<le> NSEEDS" by (simp add: NSEEDS_def)
  have e: "fst (filterbyasn one_asn three_and_one MAX_SEEDS_PER_ASN NSEEDS) =
     [node4 ''1.2.3.4'' 16909060, node4 ''1.2.3.5'' 16909061, node6 ''2001:db8::1'']"
    by (simp add: filterbyasn_def three_and_one_def node4_def node6_def one_asn_def
        MAX_SEEDS_PER_ASN_def NSEEDS_def)
  from filterbyasn_caps [OF h1 h2, where resolve = one_asn and zmg = three_and_one and asn = 64500]
    h1 h2 e
  show ?thesis by blast
qed

text \<open>
  Claim C8. When the lookup for a record fails, the iteration that looks it up (the loop has
  not stopped at \<open>max_total\<close>) leaves the accepted list and the counters as they are, appends
  the diagnostic for the record to \<open>stderr\<close>, where it stays until the end, and goes on with
  the remaining records. So an IPv4 record whose lookup fails is never in the result of
  \<open>filterbyasn\<close>, and when the loop runs to its end without reaching \<open>max_total\<close> the
  diagnostic of every such record of the input is in what was written. \<open>filterbyasn\<close>
  returns a value in every case: no lookup failure ends the run.
\<close>

theorem asn_lookup_failure:
  assumes "resolve (asn_query_name (ip x)) = None"
  shows
    "(int (length result) \<noteq> max_total \<longrightarrow>
        asn_loop resolve max_per_asn max_total (x # xs) (result, asn_count, stderr) =
        asn_loop resolve max_per_asn max_total xs
          (result, asn_count, stderr @ [asn_error_message (ip x)]) \<and>
        prefix (stderr @ [asn_error_message (ip x)])
          (snd (snd (asn_loop resolve max_per_asn max_total (x # xs)
                       (result, asn_count, stderr))))) \<and>
     (net x = ipv4 \<longrightarrow> x \<notin> set (fst (filterbyasn resolve zmg max_per_asn max_total))) \<and>
     (x \<in> set zmg \<and> net x = ipv4 \<and>
      int (length [y \<leftarrow> fst (filterbyasn resolve zmg max_per_asn max_total). net y = ipv4])
        \<noteq> max_total \<longrightarrow>
        asn_error_message (ip x) \<in> set (snd (filterbyasn resolve zmg max_per_asn max_total)))"
proof (intro conjI impI)
  let ?st' = "(result, asn_count, stderr @ [asn_error_message (ip x)])"
  assume go: "int (length result) \<noteq> max_total"
  with assms
  show eq: "asn_loop resolve max_per_asn max_total (x # xs) (result, asn_count, stderr) =
        asn_loop resolve max_per_asn max_total xs ?st'"
    by simp
  from asn_loop_stderr [of ?st' resolve max_per_asn max_total xs]
  show "prefix (stderr @ [asn_error_message (ip x)])
          (snd (snd (asn_loop resolve max_per_asn max_total (x # xs)
                       (result, asn_count, stderr))))"
    unfolding eq by simp
next
  let ?v4 = "[x \<leftarrow> zmg. net x = ipv4]"
  let ?st = "asn_loop resolve max_per_asn max_total ?v4 ([], Map.empty, [])"
  from filterbyasn_parts [of resolve max_per_asn max_total zmg] obtain ys
    where st: "?st = (ys, fst (snd ?st), snd (filterbyasn resolve zmg max_per_asn max_total))"
      and sub: "subseq ys ?v4"
      and out: "fst (filterbyasn resolve zmg max_per_asn max_total) =
                  ys @ [x \<leftarrow> zmg. net x = ipv6] @ [x \<leftarrow> zmg. net x = onion]"
    by blast
  from st have ys: "ys = fst ?st" and err: "snd (filterbyasn resolve zmg max_per_asn max_total) = snd (snd ?st)"
    by (metis fst_conv, metis snd_conv)
  {
    assume n4: "net x = ipv4"
    have "x \<notin> set ys"
    proof
      assume "x \<in> set ys"
      then have "x \<in> set (fst ?st)" using ys by simp
      from asn_loop_resolved [OF _ this] assms show False by simp
    qed
    with n4 show "x \<notin> set (fst (filterbyasn resolve zmg max_per_asn max_total))"
      by (simp add: out)
  }
  {
    assume a: "x \<in> set zmg \<and> net x = ipv4 \<and>
      int (length [y \<leftarrow> fst (filterbyasn resolve zmg max_per_asn max_total). net y = ipv4])
        \<noteq> max_total"
    from subseq_in_set [OF sub] have "\<And>y. y \<in> set ys \<Longrightarrow> net y = ipv4" by auto
    then have "[y \<leftarrow> ys. net y = ipv4] = ys" by (auto simp: filter_empty_conv)
    with a have "int (length ys) \<noteq> max_total" by (simp add: out)
    then have "int (length (fst ?st)) \<noteq> max_total" using ys by simp
    moreover from a have "x \<in> set ?v4" by simp
    ultimately have "asn_error_message (ip x) \<in> set (snd (snd ?st))"
      using assms by (rule asn_loop_logs)
    then show "asn_error_message (ip x) \<in> set (snd (filterbyasn resolve zmg max_per_asn max_total))"
      by (simp only: err)
  }
qed

theorem asn_lookup_failure_witness:
  "no_asn (asn_query_name (ip (node4 ''1.2.3.4'' 16909060))) = None \<and>
   int (length ([] :: node list)) \<noteq> NSEEDS \<and>
   asn_loop no_asn MAX_SEEDS_PER_ASN NSEEDS [node4 ''1.2.3.4'' 16909060] ([], Map.empty, []) =
     ([], Map.empty, [asn_error_message ''1.2.3.4'']) \<and>
   node4 ''1.2.3.4'' 16909060 \<in> set [node4 ''1.2.3.4'' 16909060] \<and>
   net (node4 ''1.2.3.4'' 16909060) = ipv4 \<and>
   node4 ''1.2.3.4'' 16909060
     \<notin> set (fst (filterbyasn no_asn [node4 ''1.2.3.4'' 16909060] MAX_SEEDS_PER_ASN NSEEDS)) \<and>
   asn_error_message ''1.2.3.4''
     \<in> set (snd (filterbyasn no_asn [node4 ''1.2.3.4'' 16909060] MAX_SEEDS_PER_ASN NSEEDS))"
  using asn_lookup_failure [where resolve = no_asn and x = "node4 ''1.2.3.4'' 16909060"
      and result = "[]" and max_total = NSEEDS and max_per_asn = MAX_SEEDS_PER_ASN and xs = "[]"
      and asn_count = Map.empty and stderr = "[]" and zmg = "[node4 ''1.2.3.4'' 16909060]"]
  by (simp add: no_asn_def NSEEDS_def node4_def filterbyasn_def)

subsection \<open>The parser\<close>











lemma parse_address_kinds:
  "parse_address tok = Inr (Some (nt, a, p, ipn, sk)) \<Longrightarrow>
     (nt = ipv4 \<and> (\<exists>n. n \<noteq> 0 \<and> ipn = Some n \<and> sk = KInt n)) \<or>
     (nt \<noteq> ipv4 \<and> ipn = None \<and> sk = KStr a)"
  unfolding parse_address_def
  by (auto split: option.splits sum.splits if_splits)


lemma parse_agent_13:
  "13 \<le> length sline \<Longrightarrow> parse_agent sline = Inr (drop 1 (sline ! 11) @ butlast (sline ! 12))"
  by (simp add: parse_agent_def get_def)

lemma parse_agent_short:
  "length sline = 11 \<or> length sline = 12 \<Longrightarrow> parse_agent sline = Inl IndexError"
  by (auto simp: parse_agent_def get_def)

lemma parse_agent_cases:
  "parse_agent sline = Inr a \<longleftrightarrow>
     13 \<le> length sline \<and> a = drop 1 (sline ! 11) @ butlast (sline ! 12)"
  by (auto simp: parse_agent_def get_def)

lemma parseline_Some:
  "parseline to_float line = Inr (Some r) \<longleftrightarrow>
     13 \<le> length (str_split line) \<and>
     parse_address (str_split line ! 0) = Inr (Some (net r, ip r, port r, ipnum r, sortkey r)) \<and>
     to_float (butlast (str_split line ! 7)) = Some (uptime r) \<and>
     py_int (str_split line ! 2) = Some (lastsuccess r) \<and>
     py_int (str_split line ! 10) = Some (version r) \<and>
     agent r = drop 1 (str_split line ! 11) @ butlast (str_split line ! 12) \<and>
     py_int16 (str_split line ! 9) = Some (service r) \<and>
     py_int (str_split line ! 8) = Some (blocks r)"
proof (cases "length (str_split line) < 11")
  case True
  then show ?thesis by (simp add: parseline_def)
next
  case False
  show ?thesis
  proof (cases "parse_address (str_split line ! 0)")
    case (Inl e)
    with False show ?thesis by (simp add: parseline_def)
  next
    case (Inr opt)
    show ?thesis
    proof (cases opt)
      case None
      with Inr False show ?thesis by (simp add: parseline_def)
    next
      case (Some t)
      obtain nt a p ipn sk where t: "t = (nt, a, p, ipn, sk)" by (cases t)
      from False Inr Some t show ?thesis
        by (cases r)
          (auto simp: parseline_def Let_def str_eq_int_def parse_agent_cases parse_agent_13
            split: option.splits sum.splits)
    qed
  qed
qed


lemma parseline_reject:
  "parse_address (str_split line ! 0) = Inr None \<Longrightarrow> parseline to_float line = Inr None"
  by (simp add: parseline_def Let_def)




lemma takeWhile_digit_0: "takeWhile is_digit (CHR ''0'' # c # s) = (if is_digit c then CHR ''0'' # takeWhile is_digit (c # s) else ''0'')"
  by (simp add: is_digit_def)

lemma parse_address_zero: "parse_address (''0.0.0.0:'' @ p) = Inr None"
proof -
  have v4: "PATTERN_IPV4 (''0.0.0.0:'' @ p) = None \<or>
            (\<exists>g6. PATTERN_IPV4 (''0.0.0.0:'' @ p) = Some (''0.0.0.0'', [''0'', ''0'', ''0'', ''0''], g6))"
    by (auto simp: PATTERN_IPV4_def digits_1_3_def is_digit_def bind_eq_Some_conv
        split: Option.bind_split)
  have v6: "PATTERN_IPV6 (''0.0.0.0:'' @ p) = None"
    by (simp add: PATTERN_IPV6_def)
  have on: "PATTERN_ONION (''0.0.0.0:'' @ p) = None"
    by (simp add: PATTERN_ONION_def is_base32_char_def)
  have z: "ipv4_loop [''0'', ''0'', ''0'', ''0''] 0 0 = Inr (Some 0)"
    by code_simp
  from v4 show ?thesis
  proof
    assume "PATTERN_IPV4 (''0.0.0.0:'' @ p) = None"
    with v6 on show ?thesis by (simp add: parse_address_def)
  next
    assume "\<exists>g6. PATTERN_IPV4 (''0.0.0.0:'' @ p) = Some (''0.0.0.0'', [''0'', ''0'', ''0'', ''0''], g6)"
    with z show ?thesis by (auto simp: parse_address_def)
  qed
qed

lemma parse_address_unspecified6: "parse_address (''[::]:'' @ p) = Inr None"
proof -
  have v4: "PATTERN_IPV4 (''[::]:'' @ p) = None"
    by (simp add: PATTERN_IPV4_def digits_1_3_def is_digit_def)
  have v6: "PATTERN_IPV6 (''[::]:'' @ p) = None \<or> (\<exists>g2. PATTERN_IPV6 (''[::]:'' @ p) = Some (''::'', g2))"
    by (auto simp: PATTERN_IPV6_def is_ipv6_char_def split: Option.bind_split)
  have on: "PATTERN_ONION (''[::]:'' @ p) = None"
    by (simp add: PATTERN_ONION_def is_base32_char_def)
  from v6 show ?thesis
  proof
    assume "PATTERN_IPV6 (''[::]:'' @ p) = None"
    with v4 on show ?thesis by (simp add: parse_address_def)
  next
    assume "\<exists>g2. PATTERN_IPV6 (''[::]:'' @ p) = Some (''::'', g2)"
    with v4 show ?thesis by (auto simp: parse_address_def)
  qed
qed

lemma parse_address_numeric_zero:
  "PATTERN_IPV4 tok = Some (g1, gs, g6) \<Longrightarrow> ipv4_loop gs 0 0 = Inr (Some 0) \<Longrightarrow>
   parse_address tok = Inr None"
  by (simp add: parse_address_def)

lemma tokens_line_zero:
  \<open>str_split line_zero =
     ''0.0.0.0:8333'' #
     [''1'', ''1614000000'', ''100.0%'', ''100.0%'', ''100.0%'', ''100.0%'', ''100.0%'', ''700000'',
      ''0000000d'', ''70015'', ''"/ZMG'', ''Core:2.2.0/"'']\<close>
  unfolding line_zero_def by code_simp

lemma tokens_line_unspecified6:
  \<open>str_split line_unspecified6 =
     ''[::]:8333'' #
     [''1'', ''1614000000'', ''100.0%'', ''100.0%'', ''100.0%'', ''100.0%'', ''100.0%'', ''700000'',
      ''0000000d'', ''70015'', ''"/ZMG'', ''Core:2.2.0/"'']\<close>
  unfolding line_unspecified6_def by code_simp

lemma tokens_line_good:
  \<open>str_split line_good =
     ''1.2.3.4:8333'' #
     [''1'', ''1614000000'', ''100.0%'', ''100.0%'', ''100.0%'', ''100.0%'', ''100.0%'', ''700000'',
      ''0000000d'', ''70015'', ''"/ZMG'', ''Core:2.2.0/"'']\<close>
  unfolding line_good_def by code_simp


lemma parseline_line_good: "parseline float_table line_good = Inr (Some node_good)"
  unfolding line_good_def node_good_def by code_simp

text \<open>
  Claim C9. A line whose first token begins with \<open>0.0.0.0:\<close> is rejected, and so is a line
  whose first token begins with \<open>[::]:\<close>, whatever follows the colon: \<open>parseline\<close> returns
  \<open>None\<close>. More generally a line is rejected when its first token matches the IPv4 pattern
  and the number built from the four octets is 0, so no record carries the numeric
  address 0.
\<close>

theorem parseline_unspecified_address:
  assumes "str_split line = tok # rest"
  shows
    "((\<exists>p. tok = ''0.0.0.0:'' @ p) \<longrightarrow> parseline to_float line = Inr None) \<and>
     ((\<exists>p. tok = ''[::]:'' @ p) \<longrightarrow> parseline to_float line = Inr None) \<and>
     (\<forall>g1 gs g6. PATTERN_IPV4 tok = Some (g1, gs, g6) \<and> ipv4_loop gs 0 0 = Inr (Some 0) \<longrightarrow>
        parseline to_float line = Inr None) \<and>
     (\<forall>r. parseline to_float line = Inr (Some r) \<longrightarrow> ipnum r \<noteq> Some 0 \<and> sortkey r \<noteq> KInt 0)"
proof -
  from assms have tok: "str_split line ! 0 = tok" by simp
  have a: "parseline to_float line = Inr None" if "tok = ''0.0.0.0:'' @ p" for p
    using parse_address_zero [of p] that tok by (intro parseline_reject) simp
  have b: "parseline to_float line = Inr None" if "tok = ''[::]:'' @ p" for p
    using parse_address_unspecified6 [of p] that tok by (intro parseline_reject) simp
  have c: "parseline to_float line = Inr None"
    if "PATTERN_IPV4 tok = Some (g1, gs, g6)" "ipv4_loop gs 0 0 = Inr (Some 0)" for g1 gs g6
    using parse_address_numeric_zero [OF that] tok by (intro parseline_reject) simp
  have d: "ipnum r \<noteq> Some 0 \<and> sortkey r \<noteq> KInt 0" if "parseline to_float line = Inr (Some r)" for r
  proof -
    from that have "parse_address (str_split line ! 0) =
        Inr (Some (net r, ip r, port r, ipnum r, sortkey r))"
      by (simp add: parseline_Some)
    from parse_address_kinds [OF this] show ?thesis by auto
  qed
  from a b c d show ?thesis by blast
qed


theorem parseline_unspecified_address_witness:
  "str_split line_zero = ''0.0.0.0:8333'' # tl (str_split line_zero) \<and>
   parseline float_table line_zero = Inr None \<and>
   PATTERN_IPV4 ''0.0.0.0:8333'' = Some (''0.0.0.0'', [''0'', ''0'', ''0'', ''0''], ''8333'') \<and>
   ipv4_loop [''0'', ''0'', ''0'', ''0''] 0 0 = Inr (Some 0) \<and>
   str_split line_unspecified6 = ''[::]:8333'' # tl (str_split line_unspecified6) \<and>
   parseline float_table line_unspecified6 = Inr None \<and>
   parseline float_table line_good = Inr (Some node_good) \<and>
   ipnum node_good = Some 16909060 \<and> ipnum node_good \<noteq> Some 0 \<and> sortkey node_good \<noteq> KInt 0"
proof -
  have m: "PATTERN_IPV4 ''0.0.0.0:8333'' = Some (''0.0.0.0'', [''0'', ''0'', ''0'', ''0''], ''8333'')"
    by code_simp
  have l: "ipv4_loop [''0'', ''0'', ''0'', ''0''] 0 0 = Inr (Some 0)"
    by code_simp
  from parseline_unspecified_address [OF tokens_line_zero, of float_table] m l
  have z: "parseline float_table line_zero = Inr None"
    by blast
  from parseline_unspecified_address [OF tokens_line_unspecified6, of float_table]
  have u: "parseline float_table line_unspecified6 = Inr None"
    by simp
  from parseline_unspecified_address [OF tokens_line_good, of float_table] parseline_line_good
  have g: "ipnum node_good \<noteq> Some 0 \<and> sortkey node_good \<noteq> KInt 0"
    by blast
  have n: "ipnum node_good = Some 16909060"
    by (simp add: node_good_def)
  from z m l u g n parseline_line_good show ?thesis
    by (simp add: tokens_line_zero tokens_line_unspecified6)
qed




text \<open>
  What \<open>parseline\<close> does for the user agent: every line it accepts has 13 or more tokens,
  and the agent is token 11 without its first character followed by token 12 without its
  last. A line of exactly 12 tokens is never accepted.
\<close>

lemma parseline_agent:
  "parseline to_float line = Inr (Some r) \<Longrightarrow>
   13 \<le> length (str_split line) \<and>
   agent r = drop 1 (str_split line ! 11) @ butlast (str_split line ! 12)"
  by (simp add: parseline_Some)

lemma parseline_12_tokens:
  "length (str_split line) = 12 \<Longrightarrow> parseline to_float line \<noteq> Inr (Some r)"
  by (simp add: parseline_Some)

text \<open>
  Claim C5, on a line of exactly 12 tokens. The test of line 78 is \<open>len(sline) > 11\<close>, so
  such a line takes the branch that reads \<open>sline[12]\<close>, which is out of range: \<open>parseline\<close>
  raises IndexError instead of taking token 11 as the agent, and \<open>main\<close> ends with it.
\<close>

theorem parseline_12_tokens_index_error:
  "length (str_split line_12) = 12 \<and>
   parseline float_table line_12 = Inl IndexError \<and>
   main float_table no_asn [line_12] = Inl IndexError"
proof -
  have n: "length (str_split line_12) = 12"
    unfolding line_12_def by code_simp
  have r: "parseline float_table line_12 = Inl IndexError"
    unfolding line_12_def by code_simp
  from n r show ?thesis by (simp add: main_def)
qed

subsection \<open>The quality filter\<close>

lemma filtermultiport_subset: "set (filtermultiport zmg) \<subseteq> set zmg"
  by (auto simp: filtermultiport_filter)

lemma stages_subset:
  "set (printed resolve parsed) \<subseteq> set (fst (selected resolve parsed)) \<and>
   set (fst (selected resolve parsed)) \<subseteq> set (filtermultiport (quality_sorted parsed)) \<and>
   set (filtermultiport (quality_sorted parsed)) \<subseteq> set (quality_sorted parsed) \<and>
   set (quality_sorted parsed) \<subseteq> set (quality (map the [p \<leftarrow> parsed. p \<noteq> None]))"
proof (intro conjI)
  show "set (printed resolve parsed) \<subseteq> set (fst (selected resolve parsed))"
    by (simp add: printed_def set_list_sort)
  show "set (fst (selected resolve parsed)) \<subseteq> set (filtermultiport (quality_sorted parsed))"
    unfolding selected_def by (rule filterbyasn_subset)
  show "set (filtermultiport (quality_sorted parsed)) \<subseteq> set (quality_sorted parsed)"
    by (rule filtermultiport_subset)
  show "set (quality_sorted parsed) \<subseteq> set (quality (map the [p \<leftarrow> parsed. p \<noteq> None]))"
    by (simp add: quality_sorted_def set_list_sort)
qed

lemma float_gt_int_50: "\<not> float_gt_int (Fin 50) 50"
  by simp

text \<open>
  Claim C3. A record that the five tests of lines 146 to 154 let through has service bit 1
  set, an uptime above 50, at least \<open>MIN_BLOCKS\<close> blocks, an address outside
  \<open>SUSPICIOUS_HOSTS\<close>, and a user agent that, with its spaces turned into hyphens, matches
  \<open>PATTERN_AGENT\<close>. The comparison with 50 is strict: a record with an uptime of exactly 50
  does not pass. The later stages only take records away, so the same holds of the records
  after the sort, after \<open>filtermultiport\<close>, after \<open>filterbyasn\<close> and of the records printed.
\<close>

theorem quality_survivors:
  assumes "x \<in> set (quality zmg)"
  shows
    "(service x AND 1) = 1 \<and> float_gt_int (uptime x) 50 \<and> blocks x \<ge> MIN_BLOCKS \<and>
     ip x \<notin> SUSPICIOUS_HOSTS \<and> PATTERN_AGENT (sub_space_hyphen (agent x)) \<and>
     uptime x \<noteq> Fin 50 \<and>
     (uptime y = Fin 50 \<longrightarrow> y \<notin> set (quality zmg)) \<and>
     set (printed resolve parsed) \<subseteq> set (fst (selected resolve parsed)) \<and>
     set (fst (selected resolve parsed)) \<subseteq> set (filtermultiport (quality_sorted parsed)) \<and>
     set (filtermultiport (quality_sorted parsed)) \<subseteq> set (quality_sorted parsed) \<and>
     set (quality_sorted parsed) \<subseteq> set (quality (map the [p \<leftarrow> parsed. p \<noteq> None]))"
proof -
  from assms have g: "(service x AND 1) = 1 \<and> float_gt_int (uptime x) 50 \<and> blocks x \<ge> MIN_BLOCKS \<and>
     ip x \<notin> SUSPICIOUS_HOSTS \<and> PATTERN_AGENT (sub_space_hyphen (agent x))"
    by (simp add: quality_iff)
  then have n: "uptime x \<noteq> Fin 50"
    using float_gt_int_50 by auto
  have e: "uptime y = Fin 50 \<longrightarrow> y \<notin> set (quality zmg)"
    using float_gt_int_50 by (auto simp: quality_iff)
  from g n e stages_subset [of resolve parsed] show ?thesis by blast
qed

lemma quality_sample: "quality [node_good, node_fifty] = [node_good]"
  by (simp add: quality_def node_good_def node_fifty_def SUSPICIOUS_HOSTS_def MIN_BLOCKS_def
      PATTERN_AGENT_def sub_space_hyphen_def at_end_def)

theorem quality_survivors_witness:
  "node_good \<in> set (quality [node_good, node_fifty]) \<and>
   (service node_good AND 1) = 1 \<and> float_gt_int (uptime node_good) 50 \<and>
   blocks node_good \<ge> MIN_BLOCKS \<and> ip node_good \<notin> SUSPICIOUS_HOSTS \<and>
   PATTERN_AGENT (sub_space_hyphen (agent node_good)) \<and>
   uptime node_fifty = Fin 50 \<and> node_fifty \<notin> set (quality [node_good, node_fifty])"
proof -
  have m: "node_good \<in> set (quality [node_good, node_fifty])"
    by (simp add: quality_sample)
  have u: "uptime node_fifty = Fin 50"
    by (simp add: node_fifty_def)
  from quality_survivors [OF m, where y = node_fifty] m u show ?thesis by blast
qed


subsection \<open>The output\<close>

lemma sortkey_lt_trans: "sortkey_lt a b \<Longrightarrow> sortkey_lt b c \<Longrightarrow> sortkey_lt a c"
  by (cases a; cases b; cases c) auto

lemma sortkey_lt_asym: "sortkey_lt a b \<Longrightarrow> \<not> sortkey_lt b a"
  by (cases a; cases b) auto

lemma transp_address_lt: "transp address_lt"
  by (rule transpI) (auto simp: address_lt_def split: if_splits dest: sortkey_lt_trans)

lemma asymp_address_lt: "asymp address_lt"
  by (rule asympI) (auto simp: address_lt_def split: if_splits dest: sortkey_lt_asym)

lemma address_total:
  assumes "key_matches_net a" and "key_matches_net b" and "sortkey a \<noteq> sortkey b"
    and "\<not> address_lt b a"
  shows "address_lt a b"
proof (cases "net a = net b")
  case True
  with assms show ?thesis
    by (cases "sortkey a"; cases "sortkey b") (auto simp: address_lt_def key_matches_net_def)
next
  case False
  then have "net_name (net a) \<noteq> net_name (net b)"
    by (cases "net a"; cases "net b") auto
  with assms(4) show ?thesis by (auto simp: address_lt_def)
qed

lemma parseline_key_matches_net:
  "parseline to_float line = Inr (Some r) \<Longrightarrow> key_matches_net r"
proof -
  assume "parseline to_float line = Inr (Some r)"
  then have "parse_address (str_split line ! 0) =
      Inr (Some (net r, ip r, port r, ipnum r, sortkey r))"
    by (simp add: parseline_Some)
  from parse_address_kinds [OF this] show ?thesis
    by (auto simp: key_matches_net_def)
qed

lemma parse_lines_key_matches_net:
  "parse_lines to_float ls = Inr parsed \<Longrightarrow> Some r \<in> set parsed \<Longrightarrow> key_matches_net r"
proof (induction ls arbitrary: parsed)
  case Nil
  then show ?case by simp
next
  case (Cons l ls)
  from Cons.prems(1) obtain p ps where p: "parseline to_float l = Inr p"
    and ps: "parse_lines to_float ls = Inr ps" and parsed: "parsed = p # ps"
    by (auto split: sum.splits)
  from Cons.prems(2) parsed have "p = Some r \<or> Some r \<in> set ps" by auto
  then show ?case
  proof
    assume "p = Some r"
    with p show ?thesis by (simp add: parseline_key_matches_net)
  next
    assume "Some r \<in> set ps"
    with Cons.IH [OF ps] show ?thesis .
  qed
qed

lemma selected_distinct: "distinct (map sortkey (fst (selected resolve parsed)))"
  unfolding selected_def
  by (rule filterbyasn_distinct) (simp add: filtermultiport_filter distinct_unique)

lemma printed_sorted:
  assumes "parse_lines to_float ls = Inr parsed"
  shows "sorted_wrt address_lt (printed resolve parsed)"
proof -
  let ?zs = "printed resolve parsed"
  have s: "sorted_wrt (\<lambda>a b. \<not> address_lt b a) ?zs"
    unfolding printed_def
    by (rule sorted_list_sort_ascending [OF transp_address_lt asymp_address_lt])
  have "mset ?zs = mset (fst (selected resolve parsed))"
    by (simp add: printed_def mset_list_sort)
  then have "mset (map sortkey ?zs) = mset (map sortkey (fst (selected resolve parsed)))"
    by simp
  with selected_distinct [of resolve parsed] have d: "distinct (map sortkey ?zs)"
    by (metis distinct_count_atmost_1 set_mset_mset)
  have k: "key_matches_net x" if "x \<in> set ?zs" for x
  proof -
    from that stages_subset [of resolve parsed]
    have "x \<in> set (quality (map the [p \<leftarrow> parsed. p \<noteq> None]))" by blast
    then have "x \<in> set (map the [p \<leftarrow> parsed. p \<noteq> None])" by (simp add: quality_iff)
    then have "Some x \<in> set parsed" by auto
    with assms show ?thesis by (rule parse_lines_key_matches_net)
  qed
  show ?thesis
    unfolding sorted_wrt_iff_nth_less
  proof (intro allI impI)
    fix i j assume ij: "i < j" "j < length ?zs"
    with s have "\<not> address_lt (?zs ! j) (?zs ! i)"
      by (simp add: sorted_wrt_iff_nth_less)
    moreover from d ij have "sortkey (?zs ! i) \<noteq> sortkey (?zs ! j)"
      by (auto simp: distinct_conv_nth)
    moreover from ij have "key_matches_net (?zs ! i)" "key_matches_net (?zs ! j)"
      by (simp_all add: k)
    ultimately show "address_lt (?zs ! i) (?zs ! j)"
      by (intro address_total)
  qed
qed

text \<open>
  Claim C6. When every line parses, \<open>main\<close> prints one line for each record that
  \<open>filterbyasn\<close> returned, in ascending order of \<open>(net, sortkey)\<close>; the order is strict, since
  no sort key occurs twice. An IPv6 record is printed as its address in brackets, a colon and
  the port; any other record as its address, a colon and the port. In particular, of two
  IPv4 records in the output the one with the smaller numeric sort key comes first.
\<close>

theorem main_output_sorted:
  assumes "parse_lines to_float lines = Inr parsed"
  shows
    "main to_float resolve lines =
       Inr (map emit (printed resolve parsed), snd (selected resolve parsed)) \<and>
     mset (printed resolve parsed) = mset (fst (selected resolve parsed)) \<and>
     sorted_wrt address_lt (printed resolve parsed) \<and>
     (net x = ipv6 \<longrightarrow> emit x = ''['' @ ip x @ '']:'' @ str_int (port x)) \<and>
     (net x \<noteq> ipv6 \<longrightarrow> emit x = ip x @ '':'' @ str_int (port x)) \<and>
     (i < length (printed resolve parsed) \<and> j < length (printed resolve parsed) \<and>
      net (printed resolve parsed ! i) = ipv4 \<and> net (printed resolve parsed ! j) = ipv4 \<and>
      sortkey (printed resolve parsed ! i) = KInt a \<and>
      sortkey (printed resolve parsed ! j) = KInt b \<and> a < b \<longrightarrow> i < j)"
proof -
  let ?zs = "printed resolve parsed"
  have m: "main to_float resolve lines = Inr (map emit ?zs, snd (selected resolve parsed))"
    using assms by (simp add: main_def printed_def split: prod.splits)
  have p: "mset ?zs = mset (fst (selected resolve parsed))"
    by (simp add: printed_def mset_list_sort)
  have s: "sorted_wrt address_lt ?zs"
    using assms by (rule printed_sorted)
  have o: "i < j"
    if h: "i < length ?zs" "j < length ?zs" "net (?zs ! i) = ipv4" "net (?zs ! j) = ipv4"
      "sortkey (?zs ! i) = KInt a" "sortkey (?zs ! j) = KInt b" "a < b"
  proof (rule ccontr)
    assume "\<not> i < j"
    then consider "i = j" | "j < i" by linarith
    then show False
    proof cases
      case 1
      with h show ?thesis by simp
    next
      case 2
      with s h(1) have "address_lt (?zs ! j) (?zs ! i)"
        by (simp add: sorted_wrt_iff_nth_less)
      with h show ?thesis by (simp add: address_lt_def)
    qed
  qed
  from m p s o show ?thesis by (simp add: emit_def)
qed


lemma parseline_line_low: "parseline float_table line_low = Inr (Some node_low)"
  unfolding line_low_def node_low_def by code_simp

lemma parseline_line_six: "parseline float_table line_six = Inr (Some node_six)"
  unfolding line_six_def node_six_def by code_simp

lemma parse_lines_sample:
  "parse_lines float_table [line_good, line_low, line_six] =
     Inr [Some node_good, Some node_low, Some node_six]"
  by (simp add: parseline_line_good parseline_line_low parseline_line_six)

lemma quality_sorted_sample:
  "quality_sorted [Some node_good, Some node_low, Some node_six] = [node_six, node_good, node_low]"
  by (simp add: quality_sorted_def quality_def node_good_def node_low_def node_six_def
      SUSPICIOUS_HOSTS_def MIN_BLOCKS_def PATTERN_AGENT_def sub_space_hyphen_def at_end_def
      list_sort_def sort_lt_def availability_lt_def)

lemma selected_sample:
  "selected one_asn [Some node_good, Some node_low, Some node_six] =
     ([node_good, node_low, node_six], [])"
  unfolding selected_def quality_sorted_sample
  by (simp add: filtermultiport_def filterbyasn_def node_good_def node_low_def node_six_def
      one_asn_def MAX_SEEDS_PER_ASN_def NSEEDS_def)

lemma printed_sample:
  "printed one_asn [Some node_good, Some node_low, Some node_six] =
     [node_low, node_good, node_six]"
  unfolding printed_def selected_sample
  by (simp add: list_sort_def sort_lt_def address_lt_def node_good_def node_low_def node_six_def)

theorem main_output_sorted_witness:
  "parse_lines float_table [line_good, line_low, line_six] =
     Inr [Some node_good, Some node_low, Some node_six] \<and>
   printed one_asn [Some node_good, Some node_low, Some node_six] =
     [node_low, node_good, node_six] \<and>
   main float_table one_asn [line_good, line_low, line_six] =
     Inr ([''1.2.3.3:8333'', ''1.2.3.4:8333'', ''[2001:db8::1]:8333''], []) \<and>
   sorted_wrt address_lt [node_low, node_good, node_six] \<and>
   sortkey node_low = KInt 16909059 \<and> sortkey node_good = KInt 16909060"
proof -
  note t = main_output_sorted [OF parse_lines_sample, where resolve = one_asn]
  have e: "emit node_low = ''1.2.3.3:8333''" "emit node_good = ''1.2.3.4:8333''"
    "emit node_six = ''[2001:db8::1]:8333''"
    by (simp_all add: emit_def str_int_def node_good_def node_low_def node_six_def)
  from t have m: "main float_table one_asn [line_good, line_low, line_six] =
      Inr ([''1.2.3.3:8333'', ''1.2.3.4:8333'', ''[2001:db8::1]:8333''], [])"
    by (simp add: printed_sample selected_sample e)
  from t have s: "sorted_wrt address_lt [node_low, node_good, node_six]"
    by (simp only: printed_sample)
  have k: "sortkey node_low = KInt 16909059" "sortkey node_good = KInt 16909060"
    by (simp_all add: node_good_def node_low_def)
  from parse_lines_sample printed_sample m s k show ?thesis
    by blast
qed

end
